theory Spec2Isabelle
  imports Main "HOL-Library.Word"
begin

unbundle bit_operations_syntax

section \<open>The machine the patcher runs on\<close>

text \<open>
  The patcher of \<^verbatim>\<open>include/memory/hadesmem/patcher.hpp\<close> is conditionally compiled
  for two architectures, and its \<^verbatim>\<open>HADESMEM_DETAIL_ASSERT\<close> macro is active in
  debug builds only. Both choices are parameters of the model. Addresses are 64-bit
  words; on \<open>X86\<close> the code paths of the 32-bit build are taken, with addresses read as
  zero-extended (wrap-around at \<open>2^32\<close> is not modelled).
\<close>

type_synonym addr = "64 word"
type_synonym byte = "8 word"
type_synonym tid = "32 word"

datatype arch = X86 | X64

record build =
  target_arch :: arch
  assertions :: bool

text \<open>
  The source raises one exception type, \<^verbatim>\<open>hadesmem::Error\<close>, told apart by its
  message. Each message of the source is a constructor, named after the error kind the
  specification gives it:
  \<^item> \<open>BusyTarget\<close>: "Thread is currently executing patch target."
  \<^item> \<open>Disasm\<close>: "Disassembly failed."
  \<^item> \<open>UnknownInsnSize\<close>: "Unknown instruction size."
  \<^item> \<open>NoTrampolineBlock\<close>: "Failed to find trampoline memory block."
  \<^item> \<open>UnreachableTarget\<close>: "Unable to use a relative or trampoline jump, and push/ret
    fallback is disabled."
  \<^item> \<open>Unimplemented\<close>: "Unimplemented."
  \<^item> \<open>NoFreeDebugRegister\<close>: "No free debug registers."
  \<^item> \<open>MemoryIO\<close>: raised by the memory reader, writer and allocator.
  \<^item> \<open>DuplicateHook\<close>: named by the specification; no line of the source raises it.
\<close>

datatype error =
    MemoryIO
  | Disasm
  | UnknownInsnSize
  | NoTrampolineBlock
  | UnreachableTarget
  | BusyTarget
  | Unimplemented
  | NoFreeDebugRegister
  | DuplicateHook

text \<open>
  An operation returns normally, throws, or stops the process (a failed assertion of a
  debug build, or a dereferenced null pointer). A thrown error can be caught; \<open>Abort\<close>
  cannot.
\<close>

datatype 'a result = Ok 'a | Throw error | Abort

record allocation =
  alloc_base :: addr
  alloc_size :: nat

record thread_context =
  Dr0 :: "64 word"
  Dr1 :: "64 word"
  Dr2 :: "64 word"
  Dr3 :: "64 word"
  Dr6 :: "64 word"
  Dr7 :: "64 word"

text \<open>
  \<^verbatim>\<open>hadesmem::detail::SRWLockType\<close>, and what is recorded about the exception registry:
  every acquisition and release of the lock of \<^verbatim>\<open>GetSrwLock\<close>, every write to the maps of
  \<^verbatim>\<open>GetVehHooks\<close> and \<^verbatim>\<open>GetDrHooks\<close>, and every committed thread context, in the order in
  which they happen. An access is made under the lock when it stands between an
  acquisition and the release that follows it.
\<close>

datatype SRWLockType = Shared | Exclusive

datatype event =
    SrwAcquire SRWLockType
  | SrwRelease
  | VehHooksSet addr
  | VehHooksErase addr
  | DrHooksSet tid
  | DrHooksErase tid
  | ContextSet tid

text \<open>
  The world outside the patch objects: the bytes of the target process, which pages are
  committed, what the operating system's allocator would grant, the threads of the
  process with their program counters, the calling thread, and the process-wide
  exception registry of \<^verbatim>\<open>PatchVeh\<close> (\<^verbatim>\<open>GetVehHooks\<close>, \<^verbatim>\<open>GetDrHooks\<close>). \<open>freed\<close>
  logs every released allocation, in order, and \<open>events\<close> every access to the registry.
  \<open>end_second\<close> is the word that \<^verbatim>\<open>iter->second\<close> finds when \<^verbatim>\<open>iter\<close> is the end iterator
  of \<^verbatim>\<open>dr_hooks\<close>: the read is undefined in C++, a build without assertions performs it
  in \<^verbatim>\<open>PatchDr::RemovePatch\<close> and goes on with whatever that memory holds.
\<close>

record world =
  mem :: "addr \<Rightarrow> byte"
  committed :: "addr \<Rightarrow> bool"
  allocatable :: "addr \<Rightarrow> bool"
  os_order :: "addr list"
  freed :: "allocation list"
  threads :: "(tid \<times> addr) list"
  current_tid :: tid
  min_app_addr :: addr
  max_app_addr :: addr
  veh_hooks :: "addr \<Rightarrow> nat option"
  dr_hooks :: "tid \<Rightarrow> 64 word option"
  contexts :: "tid \<Rightarrow> thread_context"
  end_second :: "64 word"
  events :: "event list"

subsection \<open>Operations with state, exceptions and aborts\<close>

type_synonym ('s, 'a) op = "'s \<Rightarrow> 'a result \<times> 's"

definition ret :: "'a \<Rightarrow> ('s, 'a) op" where
  "ret x s = (Ok x, s)"

definition throw :: "error \<Rightarrow> ('s, 'a) op" where
  "throw e s = (Throw e, s)"

definition abort :: "('s, 'a) op" where
  "abort s = (Abort, s)"

definition andThen :: "('s, 'a) op \<Rightarrow> ('a \<Rightarrow> ('s, 'b) op) \<Rightarrow> ('s, 'b) op" where
  "andThen m f s =
     (case m s of
        (Ok x, s') \<Rightarrow> f x s'
      | (Throw e, s') \<Rightarrow> (Throw e, s')
      | (Abort, s') \<Rightarrow> (Abort, s'))"

text \<open>\<^verbatim>\<open>HADESMEM_DETAIL_ASSERT(c)\<close>: nothing in a release build.\<close>

definition HADESMEM_DETAIL_ASSERT :: "build \<Rightarrow> bool \<Rightarrow> ('s, unit) op" where
  "HADESMEM_DETAIL_ASSERT b c s = (if assertions b \<and> \<not> c then (Abort, s) else (Ok (), s))"

text \<open>Operations of an object of type \<open>'o\<close> living in the world.\<close>

definition self :: "('o \<times> world, 'o) op" where
  "self s = (Ok (fst s), s)"

definition env :: "('o \<times> world, world) op" where
  "env s = (Ok (snd s), s)"

definition set_self :: "('o \<Rightarrow> 'o) \<Rightarrow> ('o \<times> world, unit) op" where
  "set_self f s = (Ok (), (f (fst s), snd s))"

definition sys :: "(world, 'a) op \<Rightarrow> ('o \<times> world, 'a) op" where
  "sys m s = (case m (snd s) of (r, w') \<Rightarrow> (r, (fst s, w')))"

subsection \<open>Memory, allocator and threads\<close>

text \<open>
  Modelled from the spec: the memory reader and writer (\<^verbatim>\<open>hadesmem/read.hpp\<close>,
  \<^verbatim>\<open>hadesmem/write.hpp\<close>) are not among the sources. The specification gives
  \<open>read_bytes(process, addr, len) \<rightarrow> bytes | err\<close> and
  \<open>write_bytes(process, addr, bytes) \<rightarrow> () | err\<close>. Here an access fails, changing
  nothing, when one of its bytes lies on a page that is not committed. Pages are 4 KiB.
\<close>

definition page_size :: nat where
  "page_size = 4096"

definition page_of :: "addr \<Rightarrow> addr" where
  "page_of a = drop_bit 12 a"

definition page_base :: "addr \<Rightarrow> addr" where
  "page_base p = push_bit 12 p"

fun addr_range :: "addr \<Rightarrow> nat \<Rightarrow> addr list" where
  "addr_range a 0 = []"
| "addr_range a (Suc n) = a # addr_range (a + 1) n"

definition accessible :: "world \<Rightarrow> addr \<Rightarrow> nat \<Rightarrow> bool" where
  "accessible w a n = list_all (\<lambda>x. committed w (page_of x)) (addr_range a n)"

fun store :: "(addr \<Rightarrow> byte) \<Rightarrow> addr \<Rightarrow> byte list \<Rightarrow> (addr \<Rightarrow> byte)" where
  "store m a [] = m"
| "store m a (x # xs) = store (m(a := x)) (a + 1) xs"

definition ReadVector :: "addr \<Rightarrow> nat \<Rightarrow> (world, byte list) op" where
  "ReadVector a n w =
     (if accessible w a n then (Ok (map (mem w) (addr_range a n)), w)
      else (Throw MemoryIO, w))"

definition WriteVector :: "addr \<Rightarrow> byte list \<Rightarrow> (world, unit) op" where
  "WriteVector a xs w =
     (if accessible w a (length xs) then (Ok (), w\<lparr>mem := store (mem w) a xs\<rparr>)
      else (Throw MemoryIO, w))"

text \<open>Values in memory are little-endian.\<close>

definition le32 :: "32 word \<Rightarrow> byte list" where
  "le32 x = [ucast x, ucast (drop_bit 8 x), ucast (drop_bit 16 x), ucast (drop_bit 24 x)]"

definition le64 :: "64 word \<Rightarrow> byte list" where
  "le64 x = le32 (ucast x) @ le32 (ucast (drop_bit 32 x))"

fun from_le :: "byte list \<Rightarrow> 64 word" where
  "from_le [] = 0"
| "from_le (x # xs) = ucast x OR push_bit 8 (from_le xs)"

definition pointer_size :: "build \<Rightarrow> nat" where
  "pointer_size b = (case target_arch b of X86 \<Rightarrow> 4 | X64 \<Rightarrow> 8)"

text \<open>\<^verbatim>\<open>Read<void*>\<close> and \<^verbatim>\<open>Write\<close> of a pointer-sized value.\<close>

definition ReadPointer :: "build \<Rightarrow> addr \<Rightarrow> (world, addr) op" where
  "ReadPointer b a = andThen (ReadVector a (pointer_size b)) (\<lambda>xs. ret (from_le xs))"

definition WritePointer :: "build \<Rightarrow> addr \<Rightarrow> addr \<Rightarrow> (world, unit) op" where
  "WritePointer b a v = WriteVector a (take (pointer_size b) (le64 v))"

text \<open>
  Modelled from the spec: the allocator (\<^verbatim>\<open>hadesmem/alloc.hpp\<close>: \<^verbatim>\<open>Allocator\<close>,
  \<^verbatim>\<open>detail::TryAlloc\<close>) is not among the sources. The specification gives
  \<open>alloc(process, size, preferred_addr?) \<rightarrow> Allocation | err\<close>, an allocation being an
  owned page with \<open>(base, size)\<close>, freed on drop. Every request of the patcher is for at
  most one page. A page can be handed out when it is not committed and the operating
  system grants it (\<open>allocatable\<close>); it comes back committed and zeroed. Without a
  preferred address the system takes the page of the first address of \<open>os_order\<close> whose
  page can be handed out. \<open>committed\<close> and \<open>allocatable\<close> are read at page numbers
  (\<open>page_of\<close> of an address).
\<close>

definition grantable :: "world \<Rightarrow> addr \<Rightarrow> bool" where
  "grantable w p = (allocatable w p \<and> \<not> committed w p)"

definition commit_page :: "addr \<Rightarrow> world \<Rightarrow> world" where
  "commit_page p w =
     w\<lparr>committed := (committed w)(p := True),
       mem := (\<lambda>a. if page_of a = p then 0 else mem w a)\<rparr>"

definition TryAlloc :: "nat \<Rightarrow> addr \<Rightarrow> (world, addr option) op" where
  "TryAlloc n a w =
     (if grantable w (page_of a)
      then (Ok (Some (page_base (page_of a))), commit_page (page_of a) w)
      else (Ok None, w))"

definition Allocator_new :: "nat \<Rightarrow> (world, allocation) op" where
  "Allocator_new n w =
     (case filter (\<lambda>a. grantable w (page_of a)) (os_order w) of
        [] \<Rightarrow> (Throw MemoryIO, w)
      | a # _ \<Rightarrow>
          (Ok \<lparr>alloc_base = page_base (page_of a), alloc_size = n\<rparr>,
           commit_page (page_of a) w))"

definition Allocator_free :: "allocation \<Rightarrow> world \<Rightarrow> world" where
  "Allocator_free a w =
     w\<lparr>committed := (committed w)(page_of (alloc_base a) := False),
       freed := freed w @ [a]\<rparr>"

fun free_all :: "allocation list \<Rightarrow> world \<Rightarrow> world" where
  "free_all [] w = w"
| "free_all (a # as) w = free_all as (Allocator_free a w)"

text \<open>
  Modelled from the spec: \<^verbatim>\<open>IsExecutingInRange\<close> (\<^verbatim>\<open>hadesmem/thread_helpers.hpp\<close>) is
  not among the sources; the specification's instruction-pointer probe "reports whether
  its program counter lies in a half-open byte range". \<^verbatim>\<open>SuspendedProcess\<close> freezes the
  other threads for the length of an operation: their program counters, a field of the
  world, do not move while an operation runs.
\<close>

definition IsExecutingInRange :: "addr \<Rightarrow> addr \<Rightarrow> addr \<Rightarrow> bool" where
  "IsExecutingInRange pc beg fin = (beg \<le> pc \<and> pc < fin)"

fun VerifyPatchThreads_loop :: "tid \<Rightarrow> (tid \<times> addr) list \<Rightarrow> addr \<Rightarrow> nat \<Rightarrow> unit result" where
  "VerifyPatchThreads_loop cur [] target len = Ok ()"
| "VerifyPatchThreads_loop cur (thread_entry # rest) target len =
     (if fst thread_entry = cur then VerifyPatchThreads_loop cur rest target len
      else if IsExecutingInRange (snd thread_entry) target (target + of_nat len)
      then Throw BusyTarget
      else VerifyPatchThreads_loop cur rest target len)"

definition VerifyPatchThreads :: "addr \<Rightarrow> nat \<Rightarrow> (world, unit) op" where
  "VerifyPatchThreads target len w =
     (VerifyPatchThreads_loop (current_tid w) (threads w) target len, w)"

section \<open>Jump and call encodings\<close>

text \<open>
  \<^verbatim>\<open>PatchDetour::IsNear\<close>. On x64 the displacement is a signed 64-bit integer
  (\<^verbatim>\<open>std::intptr_t\<close>), compared against \<^verbatim>\<open>numeric_limits<uint32_t>::min()\<close> and
  \<^verbatim>\<open>max()\<close>, that is against \<open>0\<close> and \<open>4294967295\<close> after the usual arithmetic
  conversions.
\<close>

definition IsNear :: "build \<Rightarrow> addr \<Rightarrow> addr \<Rightarrow> bool" where
  "IsNear b address target =
     (case target_arch b of
        X64 \<Rightarrow> (let rel = sint (target - address - 5) in 0 < rel \<and> rel < 4294967295)
      | X86 \<Rightarrow> True)"

definition kJmpSize32 :: nat where
  "kJmpSize32 = 5"

definition kCallSize32 :: nat where
  "kCallSize32 = 5"

definition kJmpSize64 :: "build \<Rightarrow> nat" where
  "kJmpSize64 b = (case target_arch b of X64 \<Rightarrow> 6 | X86 \<Rightarrow> kJmpSize32)"

definition kCallSize64 :: "build \<Rightarrow> nat" where
  "kCallSize64 b = (case target_arch b of X64 \<Rightarrow> 6 | X86 \<Rightarrow> kCallSize32)"

definition kPushRetSize64 :: nat where
  "kPushRetSize64 = 14"

definition kPushRetSize32 :: nat where
  "kPushRetSize32 = 6"

definition GenJmp32 :: "addr \<Rightarrow> addr \<Rightarrow> byte list" where
  "GenJmp32 address target = [0xE9] @ le32 (ucast (target - address - 4 - 1))"

definition GenCall32 :: "addr \<Rightarrow> addr \<Rightarrow> byte list" where
  "GenCall32 address target = [0xE8] @ le32 (ucast (target - address - 4 - 1))"

definition GenJmpTramp64 :: "addr \<Rightarrow> addr \<Rightarrow> byte list" where
  "GenJmpTramp64 address target = [0xFF, 0x25] @ le32 (ucast (target - address - 4 - 2))"

definition GenCallTramp64 :: "addr \<Rightarrow> addr \<Rightarrow> byte list" where
  "GenCallTramp64 address target = [0xFF, 0x15] @ le32 (ucast (target - address - 4 - 2))"

definition GenPush32Ret :: "addr \<Rightarrow> byte list" where
  "GenPush32Ret target = [0x68] @ le32 (ucast (target AND 0xFFFFFFFF)) @ [0xC3]"

definition GenPush64Ret :: "addr \<Rightarrow> byte list" where
  "GenPush64Ret target =
     [0x68] @ le32 (ucast (target AND 0xFFFFFFFF)) @
     [0xC7, 0x44, 0x24, 0x04] @ le32 (ucast (drop_bit 32 target AND 0xFFFFFFFF)) @
     [0xC3]"

section \<open>Patch objects\<close>

record raw_obj =
  raw_applied :: bool
  raw_detached :: bool
  raw_target :: addr
  raw_data :: "byte list"
  raw_orig :: "byte list"

text \<open>
  A data member \<^verbatim>\<open>x_\<close> of \<^verbatim>\<open>PatchRaw\<close> is the field \<open>raw_x\<close>, one of
  \<^verbatim>\<open>PatchDetour\<close> the field \<open>det_x\<close>. The borrowed \<^verbatim>\<open>process_\<close> is the world.
  \<^verbatim>\<open>PatchDetour\<close> and its subclasses share one layout; \<open>dyn_type\<close> is the class the
  object was constructed as and selects the virtual functions, \<open>this_ptr\<close> is the
  object's identity, which the exception registry stores.
\<close>

datatype dynamic_type = PatchDetour | PatchVeh | PatchInt3 | PatchDr

record detour_obj =
  dyn_type :: dynamic_type
  this_ptr :: nat
  det_applied :: bool
  det_detached :: bool
  det_target :: addr
  det_detour :: addr
  det_trampoline :: "allocation option"
  det_orig :: "byte list"
  det_trampolines :: "allocation list"
  det_ref_count :: "32 word"

subsection \<open>Exception handling helpers\<close>

text \<open>\<^verbatim>\<open>try { m } catch (std::exception const&) { }\<close>: a thrown error leaves no value.\<close>

definition catch_exception :: "('s, 'a) op \<Rightarrow> ('s, 'a option) op" where
  "catch_exception m s =
     (case m s of
        (Ok x, s') \<Rightarrow> (Ok (Some x), s')
      | (Throw e, s') \<Rightarrow> (Ok None, s')
      | (Abort, s') \<Rightarrow> (Abort, s'))"

text \<open>
  A local object with a destructor (a \<^verbatim>\<open>std::unique_ptr<Allocator>\<close> not yet moved
  from, a scope warden not yet dismissed): when \<open>m\<close> throws, \<open>cleanup\<close> runs while the
  stack unwinds.
\<close>

definition on_unwind :: "('s \<Rightarrow> 's) \<Rightarrow> ('s, 'a) op \<Rightarrow> ('s, 'a) op" where
  "on_unwind cleanup m s =
     (case m s of
        (Throw e, s') \<Rightarrow> (Throw e, cleanup s')
      | (Ok x, s') \<Rightarrow> (Ok x, s')
      | (Abort, s') \<Rightarrow> (Abort, s'))"

subsection \<open>\<^verbatim>\<open>PatchRaw\<close>\<close>

definition PatchRaw_IsApplied :: "raw_obj \<Rightarrow> bool" where
  "PatchRaw_IsApplied p = raw_applied p"

definition PatchRaw_Apply :: "build \<Rightarrow> (raw_obj \<times> world, unit) op" where
  "PatchRaw_Apply b =
     andThen self (\<lambda>p.
       if raw_applied p then ret ()
       else if raw_detached p then andThen (HADESMEM_DETAIL_ASSERT b False) (\<lambda>_. ret ())
       else
         andThen (sys (VerifyPatchThreads (raw_target p) (length (raw_data p)))) (\<lambda>_.
         andThen (sys (ReadVector (raw_target p) (length (raw_data p)))) (\<lambda>orig.
         andThen (set_self (\<lambda>p. p\<lparr>raw_orig := orig\<rparr>)) (\<lambda>_.
         andThen (sys (WriteVector (raw_target p) (raw_data p))) (\<lambda>_.
         set_self (\<lambda>p. p\<lparr>raw_applied := True\<rparr>))))))"

definition PatchRaw_Remove :: "(raw_obj \<times> world, unit) op" where
  "PatchRaw_Remove =
     andThen self (\<lambda>p.
       if \<not> raw_applied p then ret ()
       else
         andThen (sys (VerifyPatchThreads (raw_target p) (length (raw_data p)))) (\<lambda>_.
         andThen (sys (WriteVector (raw_target p) (raw_orig p))) (\<lambda>_.
         set_self (\<lambda>p. p\<lparr>raw_applied := False\<rparr>))))"

definition PatchRaw_Detach :: "(raw_obj \<times> world, unit) op" where
  "PatchRaw_Detach = set_self (\<lambda>p. p\<lparr>raw_applied := False, raw_detached := True\<rparr>)"

text \<open>
  \<^verbatim>\<open>RemoveUnchecked\<close>: \<^verbatim>\<open>catch (...)\<close> traces, asserts and forgets the object's
  references. The destructor \<^verbatim>\<open>~PatchRaw\<close> is \<^verbatim>\<open>RemoveUnchecked\<close>.
\<close>

definition PatchRaw_RemoveUnchecked :: "build \<Rightarrow> (raw_obj \<times> world, unit) op" where
  "PatchRaw_RemoveUnchecked b =
     andThen (catch_exception PatchRaw_Remove) (\<lambda>r.
       case r of
         Some _ \<Rightarrow> ret ()
       | None \<Rightarrow>
           andThen (HADESMEM_DETAIL_ASSERT b False) (\<lambda>_.
           set_self (\<lambda>p. p\<lparr>raw_applied := False, raw_target := 0,
                              raw_data := [], raw_orig := []\<rparr>)))"

subsection \<open>The disassembler\<close>

text \<open>
  udis86 is a third-party library; the decoder is a parameter of the model. It is given
  the bytes of the input buffer that are still unread and returns what the patcher reads
  of \<^verbatim>\<open>ud_t\<close>: the length of the instruction (\<open>0\<close> when it cannot decode), the
  mnemonic, and operand 0 if there is one. \<open>opr_lval\<close> is the union \<^verbatim>\<open>lval\<close>, whose
  members \<^verbatim>\<open>sbyte\<close>, \<^verbatim>\<open>sword\<close>, \<^verbatim>\<open>sdword\<close> and \<^verbatim>\<open>sqword\<close> share their low bytes.
\<close>

datatype ud_mnemonic = UD_Ijmp | UD_Icall | UD_Iother

datatype ud_type = UD_NONE | UD_R_RIP | UD_OP_MEM | UD_OP_JIMM | UD_OP_other

record ud_operand =
  opr_type :: ud_type
  opr_size :: nat
  opr_base :: ud_type
  opr_index :: ud_type
  opr_scale :: nat
  opr_offset :: nat
  opr_lval :: "64 word"

record ud_insn =
  insn_len :: nat
  insn_mnemonic :: ud_mnemonic
  insn_opr0 :: "ud_operand option"

type_synonym decoder = "byte list \<Rightarrow> ud_insn"

subsection \<open>\<^verbatim>\<open>PatchDetour::AllocatePageNear\<close>\<close>

text \<open>
  The scan works on \<^verbatim>\<open>std::intptr_t\<close>; the model uses unbounded integers (a signed
  overflow is undefined in the source and needs an address within 2 GiB of \<open>2^63\<close>).
  \<^verbatim>\<open>lpMinimumApplicationAddress\<close> and \<^verbatim>\<open>lpMaximumApplicationAddress\<close> of
  \<^verbatim>\<open>GetSystemInfo\<close> are fields of the world, \<^verbatim>\<open>dwPageSize\<close> is \<open>page_size\<close>.
\<close>

definition allocate_tramp :: "addr \<Rightarrow> nat \<Rightarrow> (world, allocation option) op" where
  "allocate_tramp a n =
     andThen (TryAlloc n a) (\<lambda>new_addr.
       case new_addr of
         Some x \<Rightarrow> ret (Some \<lparr>alloc_base = x, alloc_size = n\<rparr>)
       | None \<Rightarrow> ret None)"

function scan_forward :: "int \<Rightarrow> int \<Rightarrow> int \<Rightarrow> (world, allocation option) op" where
  "scan_forward base index search_end w =
     (if base + index < search_end then
        (case allocate_tramp (word_of_int (base + index)) page_size w of
           (Ok (Some tr), w') \<Rightarrow> (Ok (Some tr), w')
         | (Ok None, w') \<Rightarrow> scan_forward base (index + int page_size) search_end w'
         | (Throw e, w') \<Rightarrow> (Throw e, w')
         | (Abort, w') \<Rightarrow> (Abort, w'))
      else (Ok None, w))"
  by pat_completeness auto
termination
  by (relation "measure (\<lambda>(base, index, search_end, w). nat (search_end - (base + index)))")
     (auto simp: page_size_def)

function scan_backward :: "int \<Rightarrow> int \<Rightarrow> int \<Rightarrow> (world, allocation option) op" where
  "scan_backward base index search_beg w =
     (if base - index > search_beg then
        (case allocate_tramp (word_of_int (base - index)) page_size w of
           (Ok (Some tr), w') \<Rightarrow> (Ok (Some tr), w')
         | (Ok None, w') \<Rightarrow> scan_backward base (index + int page_size) search_beg w'
         | (Throw e, w') \<Rightarrow> (Throw e, w')
         | (Abort, w') \<Rightarrow> (Abort, w'))
      else (Ok None, w))"
  by pat_completeness auto
termination
  by (relation "measure (\<lambda>(base, index, search_beg, w). nat ((base - index) - search_beg))")
     (auto simp: page_size_def)

declare scan_forward.simps [simp del]
declare scan_backward.simps [simp del]

definition AllocatePageNear :: "build \<Rightarrow> addr \<Rightarrow> (world, allocation) op" where
  "AllocatePageNear b address =
     (case target_arch b of
        X64 \<Rightarrow>
          (\<lambda>w.
            let search_beg = max (sint address - 0x7FFFFF00) (sint (min_app_addr w));
                search_end = min (sint address + 0x7FFFFF00) (sint (max_app_addr w))
            in andThen (scan_forward (sint address) 0 search_end) (\<lambda>fwd.
                 andThen (case fwd of
                            Some tr \<Rightarrow> ret (Some tr)
                          | None \<Rightarrow> scan_backward (sint address) 0 search_beg) (\<lambda>trampoline.
                 case trampoline of
                   None \<Rightarrow> throw NoTrampolineBlock
                 | Some tr \<Rightarrow> ret tr)) w)
      | X86 \<Rightarrow> Allocator_new page_size)"

subsection \<open>\<^verbatim>\<open>PatchDetour::WriteJump\<close> and \<^verbatim>\<open>WriteCall\<close>\<close>

definition release_local :: "allocation \<Rightarrow> detour_obj \<times> world \<Rightarrow> detour_obj \<times> world" where
  "release_local tr s = (fst s, Allocator_free tr (snd s))"

definition keep_island :: "allocation \<Rightarrow> (detour_obj \<times> world, unit) op" where
  "keep_island tr = set_self (\<lambda>p. p\<lparr>det_trampolines := det_trampolines p @ [tr]\<rparr>)"

definition jump_bytes :: "build \<Rightarrow> addr \<Rightarrow> addr \<Rightarrow> bool \<Rightarrow> (detour_obj \<times> world, byte list) op" where
  "jump_bytes b address target push_ret_fallback =
     (case target_arch b of
        X64 \<Rightarrow>
          if IsNear b address target then
            andThen (HADESMEM_DETAIL_ASSERT b (length (GenJmp32 address target) = kJmpSize32)) (\<lambda>_.
            ret (GenJmp32 address target))
          else
            andThen (catch_exception (sys (AllocatePageNear b address))) (\<lambda>trampoline.
              case trampoline of
                Some tr \<Rightarrow>
                  andThen (on_unwind (release_local tr)
                             (sys (WritePointer b (alloc_base tr) target))) (\<lambda>_.
                  andThen (keep_island tr) (\<lambda>_.
                  andThen (HADESMEM_DETAIL_ASSERT b
                             (length (GenJmpTramp64 address (alloc_base tr)) = kJmpSize64 b)) (\<lambda>_.
                  ret (GenJmpTramp64 address (alloc_base tr)))))
              | None \<Rightarrow>
                  if \<not> push_ret_fallback then throw UnreachableTarget
                  else if ucast (drop_bit 32 target AND 0xFFFFFFFF) \<noteq> (0 :: 32 word) then
                    andThen (HADESMEM_DETAIL_ASSERT b
                               (length (GenPush64Ret target) = kPushRetSize64)) (\<lambda>_.
                    ret (GenPush64Ret target))
                  else
                    andThen (HADESMEM_DETAIL_ASSERT b
                               (length (GenPush32Ret target) = kPushRetSize32)) (\<lambda>_.
                    ret (GenPush32Ret target)))
      | X86 \<Rightarrow>
          andThen (HADESMEM_DETAIL_ASSERT b (length (GenJmp32 address target) = kJmpSize32)) (\<lambda>_.
          ret (GenJmp32 address target)))"

definition WriteJump :: "build \<Rightarrow> addr \<Rightarrow> addr \<Rightarrow> bool \<Rightarrow> (detour_obj \<times> world, nat) op" where
  "WriteJump b address target push_ret_fallback =
     andThen (jump_bytes b address target push_ret_fallback) (\<lambda>jump_buf.
     andThen (sys (WriteVector address jump_buf)) (\<lambda>_.
     ret (length jump_buf)))"

definition call_bytes :: "build \<Rightarrow> addr \<Rightarrow> addr \<Rightarrow> (detour_obj \<times> world, byte list) op" where
  "call_bytes b address target =
     (case target_arch b of
        X64 \<Rightarrow>
          andThen (sys (AllocatePageNear b address)) (\<lambda>tr.
          andThen (on_unwind (release_local tr)
                     (sys (WritePointer b (alloc_base tr) target))) (\<lambda>_.
          andThen (keep_island tr) (\<lambda>_.
          andThen (HADESMEM_DETAIL_ASSERT b
                     (length (GenCallTramp64 address (alloc_base tr)) = kCallSize64 b)) (\<lambda>_.
          ret (GenCallTramp64 address (alloc_base tr))))))
      | X86 \<Rightarrow>
          andThen (HADESMEM_DETAIL_ASSERT b (length (GenCall32 address target) = kCallSize32)) (\<lambda>_.
          ret (GenCall32 address target)))"

definition WriteCall :: "build \<Rightarrow> addr \<Rightarrow> addr \<Rightarrow> (detour_obj \<times> world, nat) op" where
  "WriteCall b address target =
     andThen (call_bytes b address target) (\<lambda>call_buf.
     andThen (sys (WriteVector address call_buf)) (\<lambda>_.
     ret (length call_buf)))"

subsection \<open>The exception registry and the debug registers\<close>

definition sys_do :: "(world \<Rightarrow> world) \<Rightarrow> ('o \<times> world, unit) op" where
  "sys_do f s = (Ok (), (fst s, f (snd s)))"

definition in_world :: "(world \<Rightarrow> world) \<Rightarrow> 'o \<times> world \<Rightarrow> 'o \<times> world" where
  "in_world f s = (fst s, f (snd s))"

definition record_event :: "event \<Rightarrow> world \<Rightarrow> world" where
  "record_event e w = w\<lparr>events := events w @ [e]\<rparr>"

definition veh_hooks_insert :: "addr \<Rightarrow> nat \<Rightarrow> world \<Rightarrow> world" where
  "veh_hooks_insert a x w = record_event (VehHooksSet a) (w\<lparr>veh_hooks := (veh_hooks w)(a := Some x)\<rparr>)"

definition veh_hooks_erase :: "addr \<Rightarrow> world \<Rightarrow> world" where
  "veh_hooks_erase a w = record_event (VehHooksErase a) (w\<lparr>veh_hooks := (veh_hooks w)(a := None)\<rparr>)"

definition dr_hooks_insert :: "tid \<Rightarrow> 64 word \<Rightarrow> world \<Rightarrow> world" where
  "dr_hooks_insert t i w = record_event (DrHooksSet t) (w\<lparr>dr_hooks := (dr_hooks w)(t := Some i)\<rparr>)"

definition dr_hooks_erase :: "tid \<Rightarrow> world \<Rightarrow> world" where
  "dr_hooks_erase t w = record_event (DrHooksErase t) (w\<lparr>dr_hooks := (dr_hooks w)(t := None)\<rparr>)"

text \<open>
  Modelled from the spec: \<^verbatim>\<open>hadesmem::detail::AcquireSRWLock\<close>
  (\<^verbatim>\<open>hadesmem/detail/srw_lock.hpp\<close>) is not among the sources; the specification has the
  exception registry protected by a reader-writer lock that apply and remove of
  breakpoint and debug-register patches take exclusively. The object is a scope guard:
  the lock is taken where it is declared and released when its block is left, by a
  return or by an exception. A failed assertion stops the process inside the block,
  with the lock held. Operations run one at a time here, so the lock is free whenever
  one starts.
\<close>

definition AcquireSRWLock :: "SRWLockType \<Rightarrow> ('o \<times> world, 'a) op \<Rightarrow> ('o \<times> world, 'a) op" where
  "AcquireSRWLock ty m s =
     (case m (in_world (record_event (SrwAcquire ty)) s) of
        (Abort, s') \<Rightarrow> (Abort, s')
      | (r, s') \<Rightarrow> (r, in_world (record_event SrwRelease) s'))"

text \<open>
  Modelled from the spec: \<^verbatim>\<open>GetThreadContext\<close> and \<^verbatim>\<open>SetThreadContext\<close>
  (\<^verbatim>\<open>hadesmem/thread_helpers.hpp\<close>) are not among the sources; the specification gives
  \<open>get/set_context(thread, which) \<rightarrow> ctx\<close>, with no error.
\<close>

definition GetThreadContext :: "world \<Rightarrow> tid \<Rightarrow> thread_context" where
  "GetThreadContext w t = contexts w t"

definition SetThreadContext :: "tid \<Rightarrow> thread_context \<Rightarrow> world \<Rightarrow> world" where
  "SetThreadContext t c w = record_event (ContextSet t) (w\<lparr>contexts := (contexts w)(t := c)\<rparr>)"

text \<open>\<^verbatim>\<open>(&context.Dr0)[i]\<close> for \<open>i\<close> from 0 to 3.\<close>

definition dr_get :: "thread_context \<Rightarrow> nat \<Rightarrow> 64 word" where
  "dr_get c i = (if i = 0 then Dr0 c else if i = 1 then Dr1 c else if i = 2 then Dr2 c else Dr3 c)"

definition dr_set :: "thread_context \<Rightarrow> nat \<Rightarrow> 64 word \<Rightarrow> thread_context" where
  "dr_set c i v =
     (if i = 0 then c\<lparr>Dr0 := v\<rparr> else if i = 1 then c\<lparr>Dr1 := v\<rparr>
      else if i = 2 then c\<lparr>Dr2 := v\<rparr> else c\<lparr>Dr3 := v\<rparr>)"

definition dr_is_free :: "thread_context \<Rightarrow> nat \<Rightarrow> bool" where
  "dr_is_free c i = (Dr7 c AND push_bit (i * 2) 1 = 0 \<and> dr_get c i = 0)"

definition find_free_dr :: "thread_context \<Rightarrow> nat option" where
  "find_free_dr c = find (dr_is_free c) [0, 1, 2, 3]"

definition break_type :: "64 word" where
  "break_type = 0"

definition break_len :: "64 word" where
  "break_len = 0"

definition local_enable :: "64 word" where
  "local_enable = push_bit 8 1"

definition set_dr_hook :: "thread_context \<Rightarrow> nat \<Rightarrow> addr \<Rightarrow> thread_context" where
  "set_dr_hook c dr_index target =
     (dr_set c dr_index target)
       \<lparr>Dr7 := Dr7 c OR push_bit (dr_index * 2) 1
                   OR push_bit (16 + 4 * dr_index) break_type
                   OR push_bit (18 + 4 * dr_index) break_len
                   OR local_enable\<rparr>"

definition clear_dr_hook :: "thread_context \<Rightarrow> nat \<Rightarrow> thread_context" where
  "clear_dr_hook c dr_index =
     (dr_set c dr_index 0)\<lparr>Dr7 := Dr7 c AND NOT (push_bit (dr_index * 2) 1)\<rparr>"

subsection \<open>The virtual functions\<close>

definition GetPatchSize :: "build \<Rightarrow> (detour_obj \<times> world, nat) op" where
  "GetPatchSize b =
     andThen self (\<lambda>p.
       case dyn_type p of
         PatchDetour \<Rightarrow>
           ret (if IsNear b (det_target p) (det_detour p) then kJmpSize32 else kJmpSize64 b)
       | PatchVeh \<Rightarrow> throw Unimplemented
       | PatchInt3 \<Rightarrow> ret 1
       | PatchDr \<Rightarrow> ret 1)"

definition PatchInt3_WritePatch :: "build \<Rightarrow> (detour_obj \<times> world, unit) op" where
  "PatchInt3_WritePatch b =
     andThen self (\<lambda>p.
     andThen (AcquireSRWLock Exclusive
       (andThen env (\<lambda>w.
        andThen (HADESMEM_DETAIL_ASSERT b (veh_hooks w (det_target p) = None)) (\<lambda>_.
        sys_do (veh_hooks_insert (det_target p) (this_ptr p)))))) (\<lambda>_.
     on_unwind (in_world (veh_hooks_erase (det_target p)))
       (sys (WriteVector (det_target p) [0xCC]))))"

definition PatchInt3_RemovePatch :: "(detour_obj \<times> world, unit) op" where
  "PatchInt3_RemovePatch =
     andThen self (\<lambda>p.
     andThen (sys (WriteVector (det_target p) (det_orig p))) (\<lambda>_.
     AcquireSRWLock Exclusive (sys_do (veh_hooks_erase (det_target p)))))"

text \<open>
  \<^verbatim>\<open>PatchDr::WritePatch\<close>. The lock is held for the whole function; the two scope
  wardens undo the registry entries when an exception leaves it, before the lock is
  released.
\<close>

definition PatchDr_WritePatch :: "build \<Rightarrow> (detour_obj \<times> world, unit) op" where
  "PatchDr_WritePatch b =
     AcquireSRWLock Exclusive
      (andThen self (\<lambda>p.
       andThen env (\<lambda>w.
       andThen (HADESMEM_DETAIL_ASSERT b (veh_hooks w (det_target p) = None)) (\<lambda>_.
       andThen (sys_do (veh_hooks_insert (det_target p) (this_ptr p))) (\<lambda>_.
       on_unwind (in_world (veh_hooks_erase (det_target p)))
         (andThen (HADESMEM_DETAIL_ASSERT b (dr_hooks w (current_tid w) = None)) (\<lambda>_.
          case find_free_dr (GetThreadContext w (current_tid w)) of
            None \<Rightarrow> throw NoFreeDebugRegister
          | Some dr_index \<Rightarrow>
              andThen (sys_do (dr_hooks_insert (current_tid w) (of_nat dr_index))) (\<lambda>_.
              on_unwind (in_world (dr_hooks_erase (current_tid w)))
                (sys_do (SetThreadContext (current_tid w)
                   (set_dr_hook (GetThreadContext w (current_tid w)) dr_index (det_target p))))))))))))"

text \<open>
  \<^verbatim>\<open>PatchDr::RemovePatch\<close>. The lock is held for the whole function. Without an entry
  for the thread the assertion stops a build that has assertions; a build without them
  reads \<^verbatim>\<open>iter->second\<close> through the end iterator and goes on with \<open>end_second\<close>. The three
  assertions are those of the source, in its order: the iterator, \<^verbatim>\<open>dr_hooks_removed\<close>,
  \<^verbatim>\<open>veh_hooks_removed\<close>. An index above 3 (which \<^verbatim>\<open>WritePatch\<close> never stores) makes
  \<^verbatim>\<open>*(&context.Dr0 + dr_index) = 0\<close> write outside the four registers, where the
  embedding does not follow the source: it stops there.
\<close>

definition PatchDr_RemovePatch :: "build \<Rightarrow> (detour_obj \<times> world, unit) op" where
  "PatchDr_RemovePatch b =
     AcquireSRWLock Exclusive
      (andThen self (\<lambda>p.
       andThen env (\<lambda>w.
       andThen (HADESMEM_DETAIL_ASSERT b (dr_hooks w (current_tid w) \<noteq> None)) (\<lambda>_.
       andThen (ret (case dr_hooks w (current_tid w) of
                       Some i \<Rightarrow> i
                     | None \<Rightarrow> end_second w)) (\<lambda>dr_index.
         if 3 < dr_index then abort
         else
           andThen (sys_do (SetThreadContext (current_tid w)
                      (clear_dr_hook (GetThreadContext w (current_tid w)) (unat dr_index)))) (\<lambda>_.
           andThen (sys_do (dr_hooks_erase (current_tid w))) (\<lambda>_.
           andThen (HADESMEM_DETAIL_ASSERT b (dr_hooks w (current_tid w) \<noteq> None)) (\<lambda>_.
           andThen (sys_do (veh_hooks_erase (det_target p))) (\<lambda>_.
           HADESMEM_DETAIL_ASSERT b (veh_hooks w (det_target p) \<noteq> None))))))))))"

definition WritePatch :: "build \<Rightarrow> (detour_obj \<times> world, unit) op" where
  "WritePatch b =
     andThen self (\<lambda>p.
       case dyn_type p of
         PatchDetour \<Rightarrow> andThen (WriteJump b (det_target p) (det_detour p) False) (\<lambda>_. ret ())
       | PatchVeh \<Rightarrow> throw Unimplemented
       | PatchInt3 \<Rightarrow> PatchInt3_WritePatch b
       | PatchDr \<Rightarrow> PatchDr_WritePatch b)"

definition RemovePatch :: "build \<Rightarrow> (detour_obj \<times> world, unit) op" where
  "RemovePatch b =
     andThen self (\<lambda>p.
       case dyn_type p of
         PatchDetour \<Rightarrow> sys (WriteVector (det_target p) (det_orig p))
       | PatchVeh \<Rightarrow> throw Unimplemented
       | PatchInt3 \<Rightarrow> PatchInt3_RemovePatch
       | PatchDr \<Rightarrow> PatchDr_RemovePatch b)"

subsection \<open>Prologue relocation\<close>

definition kMaxInstructionLen :: nat where
  "kMaxInstructionLen = 15"

definition kTrampSize :: nat where
  "kTrampSize = kMaxInstructionLen * 3"

definition is_jimm :: "ud_operand \<Rightarrow> bool" where
  "is_jimm x = (opr_type x = UD_OP_JIMM)"

definition is_jmem :: "ud_operand \<Rightarrow> bool" where
  "is_jmem x =
     (opr_type x = UD_OP_MEM \<and> opr_base x = UD_R_RIP \<and> opr_index x = UD_NONE \<and>
      opr_scale x = 0 \<and> opr_size x = 0x40)"

text \<open>The \<^verbatim>\<open>switch (size)\<close> over the members of \<^verbatim>\<open>lval\<close>, sign-extended to 64 bits.\<close>

definition insn_target_of :: "nat \<Rightarrow> 64 word \<Rightarrow> 64 word option" where
  "insn_target_of n lval =
     (if n = 8 then Some (scast (ucast lval :: 8 word))
      else if n = 16 then Some (scast (ucast lval :: 16 word))
      else if n = 32 then Some (scast (ucast lval :: 32 word))
      else if n = 64 then Some lval
      else None)"

definition resolve_rel :: "addr \<Rightarrow> 64 word \<Rightarrow> nat \<Rightarrow> addr" where
  "resolve_rel base target len = base + target + of_nat len"

text \<open>
  The body of the \<^verbatim>\<open>do\<close> loop of \<^verbatim>\<open>PatchDetour::Apply\<close> for one decoded instruction:
  \<open>raw\<close> are its bytes (\<^verbatim>\<open>ud_insn_ptr\<close>), \<open>insn_base\<close> its address (\<^verbatim>\<open>ud_insn_off\<close>).
  The result is the new \<^verbatim>\<open>tramp_cur\<close>.
\<close>

definition relocate_branch ::
  "build \<Rightarrow> ud_insn \<Rightarrow> ud_operand \<Rightarrow> addr \<Rightarrow> addr \<Rightarrow> (detour_obj \<times> world, addr) op" where
  "relocate_branch b insn x insn_base tramp_cur =
     andThen (case insn_target_of (if is_jimm x then opr_size x else opr_offset x) (opr_lval x) of
                Some t \<Rightarrow> ret t
              | None \<Rightarrow> andThen (HADESMEM_DETAIL_ASSERT b False) (\<lambda>_. throw UnknownInsnSize))
       (\<lambda>insn_target.
     andThen (if is_jimm x then ret (resolve_rel insn_base insn_target (insn_len insn))
              else sys (ReadPointer b (resolve_rel insn_base insn_target (insn_len insn))))
       (\<lambda>jump_target.
     if insn_mnemonic insn = UD_Ijmp then
       andThen (WriteJump b tramp_cur jump_target True) (\<lambda>n. ret (tramp_cur + of_nat n))
     else
       andThen (HADESMEM_DETAIL_ASSERT b (insn_mnemonic insn = UD_Icall)) (\<lambda>_.
       andThen (WriteCall b tramp_cur jump_target) (\<lambda>n. ret (tramp_cur + of_nat n)))))"

definition copy_insn :: "byte list \<Rightarrow> ud_insn \<Rightarrow> addr \<Rightarrow> (detour_obj \<times> world, addr) op" where
  "copy_insn raw insn tramp_cur =
     andThen (sys (WriteVector tramp_cur raw)) (\<lambda>_. ret (tramp_cur + of_nat (insn_len insn)))"

definition relocate_insn ::
  "build \<Rightarrow> byte list \<Rightarrow> ud_insn \<Rightarrow> addr \<Rightarrow> addr \<Rightarrow> (detour_obj \<times> world, addr) op" where
  "relocate_insn b raw insn insn_base tramp_cur =
     (case insn_opr0 insn of
        Some x \<Rightarrow>
          if (insn_mnemonic insn = UD_Ijmp \<or> insn_mnemonic insn = UD_Icall) \<and>
             (is_jimm x \<or> is_jmem x)
          then relocate_branch b insn x insn_base tramp_cur
          else copy_insn raw insn tramp_cur
      | None \<Rightarrow> copy_insn raw insn tramp_cur)"

text \<open>
  The \<^verbatim>\<open>do ... while (instr_size < patch_size)\<close> loop. The decoder reads on from where
  the last instruction ended; the result is the final \<^verbatim>\<open>tramp_cur\<close> and \<^verbatim>\<open>instr_size\<close>.
\<close>

function relocate_loop ::
  "build \<Rightarrow> decoder \<Rightarrow> byte list \<Rightarrow> addr \<Rightarrow> nat \<Rightarrow> addr \<Rightarrow> nat \<Rightarrow>
   (detour_obj \<times> world, addr \<times> nat) op" where
  "relocate_loop b dec buffer target patch_size tramp_cur instr_size s =
     (if insn_len (dec (drop instr_size buffer)) = 0 then (Throw Disasm, s)
      else
        (case relocate_insn b
                (take (insn_len (dec (drop instr_size buffer))) (drop instr_size buffer))
                (dec (drop instr_size buffer)) (target + of_nat instr_size) tramp_cur s of
           (Ok tramp_next, s') \<Rightarrow>
             if instr_size + insn_len (dec (drop instr_size buffer)) < patch_size
             then relocate_loop b dec buffer target patch_size tramp_next
                    (instr_size + insn_len (dec (drop instr_size buffer))) s'
             else (Ok (tramp_next, instr_size + insn_len (dec (drop instr_size buffer))), s')
         | (Throw e, s') \<Rightarrow> (Throw e, s')
         | (Abort, s') \<Rightarrow> (Abort, s')))"
  by pat_completeness auto
termination
  by (relation "measure (\<lambda>(b, dec, buffer, target, patch_size, tramp_cur, instr_size, s).
                   patch_size - instr_size)") auto

declare relocate_loop.simps [simp del]

subsection \<open>\<^verbatim>\<open>PatchDetour\<close>: apply, remove, detach, destruction\<close>

definition PatchDetour_IsApplied :: "detour_obj \<Rightarrow> bool" where
  "PatchDetour_IsApplied p = det_applied p"

text \<open>\<^verbatim>\<open>trampoline_ = nullptr; trampolines_.clear();\<close>\<close>

definition reset_trampolines :: "(detour_obj \<times> world, unit) op" where
  "reset_trampolines s =
     (Ok (),
      ((fst s)\<lparr>det_trampoline := None, det_trampolines := []\<rparr>,
       free_all (det_trampolines (fst s))
         (case det_trampoline (fst s) of
            None \<Rightarrow> snd s
          | Some tr \<Rightarrow> Allocator_free tr (snd s))))"

text \<open>
  \<^verbatim>\<open>PatchDetour::Apply\<close> from the reset of the trampolines to the read of \<^verbatim>\<open>orig_\<close>.
  \<^verbatim>\<open>FlushInstructionCache\<close> has no effect on the model.
\<close>

definition build_trampoline :: "build \<Rightarrow> decoder \<Rightarrow> (detour_obj \<times> world, nat) op" where
  "build_trampoline b dec =
     andThen self (\<lambda>p.
     andThen reset_trampolines (\<lambda>_.
     andThen (sys (Allocator_new kTrampSize)) (\<lambda>tr.
     andThen (set_self (\<lambda>p. p\<lparr>det_trampoline := Some tr\<rparr>)) (\<lambda>_.
     andThen (sys (ReadVector (det_target p) kTrampSize)) (\<lambda>buffer.
     andThen (GetPatchSize b) (\<lambda>patch_size.
     andThen (relocate_loop b dec buffer (det_target p) patch_size (alloc_base tr) 0) (\<lambda>r.
     andThen (WriteJump b (fst r) (det_target p + of_nat (snd r)) True) (\<lambda>_.
     andThen (sys (ReadVector (det_target p) patch_size)) (\<lambda>orig.
     andThen (set_self (\<lambda>p. p\<lparr>det_orig := orig\<rparr>)) (\<lambda>_.
     ret (snd r)))))))))))"

definition PatchDetour_Apply :: "build \<Rightarrow> decoder \<Rightarrow> (detour_obj \<times> world, unit) op" where
  "PatchDetour_Apply b dec =
     andThen self (\<lambda>p.
       if det_applied p then ret ()
       else if det_detached p then andThen (HADESMEM_DETAIL_ASSERT b False) (\<lambda>_. ret ())
       else
         andThen (build_trampoline b dec) (\<lambda>instr_size.
         andThen self (\<lambda>p.
         andThen (sys (VerifyPatchThreads (det_target p) (length (det_orig p)))) (\<lambda>_.
         andThen (WritePatch b) (\<lambda>_.
         set_self (\<lambda>p. p\<lparr>det_applied := True\<rparr>))))))"

definition PatchDetour_Remove :: "build \<Rightarrow> (detour_obj \<times> world, unit) op" where
  "PatchDetour_Remove b =
     andThen self (\<lambda>p.
       if \<not> det_applied p then ret ()
       else
         andThen (sys (VerifyPatchThreads (det_target p) (length (det_orig p)))) (\<lambda>_.
         case det_trampoline p of
           None \<Rightarrow> abort
         | Some tr \<Rightarrow>
             andThen (sys (VerifyPatchThreads (alloc_base tr) (alloc_size tr))) (\<lambda>_.
             andThen (RemovePatch b) (\<lambda>_.
             set_self (\<lambda>p. p\<lparr>det_applied := False\<rparr>)))))"

definition PatchDetour_Detach :: "(detour_obj \<times> world, unit) op" where
  "PatchDetour_Detach = set_self (\<lambda>p. p\<lparr>det_applied := False, det_detached := True\<rparr>)"

definition PatchDetour_GetTrampoline :: "detour_obj \<Rightarrow> addr option" where
  "PatchDetour_GetTrampoline p = map_option alloc_base (det_trampoline p)"

definition PatchDetour_RemoveUnchecked :: "build \<Rightarrow> (detour_obj \<times> world, unit) op" where
  "PatchDetour_RemoveUnchecked b =
     andThen (catch_exception (PatchDetour_Remove b)) (\<lambda>r.
       case r of
         Some _ \<Rightarrow> ret ()
       | None \<Rightarrow>
           andThen (HADESMEM_DETAIL_ASSERT b False) (\<lambda>_.
           andThen (set_self (\<lambda>p. p\<lparr>det_applied := False, det_target := 0, det_detour := 0\<rparr>)) (\<lambda>_.
           andThen reset_trampolines (\<lambda>_.
           set_self (\<lambda>p. p\<lparr>det_orig := []\<rparr>)))))"

text \<open>
  \<^verbatim>\<open>~PatchDetour\<close>: \<^verbatim>\<open>RemoveUnchecked\<close>, then the members are destroyed in the reverse
  order of their declaration: the islands of \<^verbatim>\<open>trampolines_\<close>, then \<^verbatim>\<open>trampoline_\<close>.
\<close>

definition destroy_members :: "(detour_obj \<times> world, unit) op" where
  "destroy_members s =
     (Ok (),
      ((fst s)\<lparr>det_trampoline := None, det_trampolines := []\<rparr>,
       (case det_trampoline (fst s) of
          None \<Rightarrow> free_all (det_trampolines (fst s)) (snd s)
        | Some tr \<Rightarrow> Allocator_free tr (free_all (det_trampolines (fst s)) (snd s)))))"

definition PatchDetour_destructor :: "build \<Rightarrow> (detour_obj \<times> world, unit) op" where
  "PatchDetour_destructor b = andThen (PatchDetour_RemoveUnchecked b) (\<lambda>_. destroy_members)"

section \<open>The \<^verbatim>\<open>CreateProcessInternalW\<close> detour\<close>

text \<open>
  \<^verbatim>\<open>CreateProcessInternalWDetour\<close> of \<^verbatim>\<open>examples/cerberus/process.cpp\<close>. What it does to
  the operating system is recorded as a list of events, in order; what the operating
  system answers is a parameter. The helper the detour spawns for a child of the other
  bitness is started with \<^verbatim>\<open>CreateProcessW\<close>, which reaches the hooked
  \<^verbatim>\<open>CreateProcessInternalW\<close> again: that call is the detour itself, entered with the
  thread-local \<^verbatim>\<open>in_hook\<close> set, and its events are kept inside the event of the spawn.
  Tracing, the detour's reference counter and the preservation of the last error code
  leave no event.
\<close>

definition CREATE_SUSPENDED :: "32 word" where
  "CREATE_SUSPENDED = 0x00000004"

record process_information =
  hProcess :: nat
  hThread :: nat
  dwProcessId :: nat

text \<open>
  What a process is created from: the arguments of the hooked caller, or the command
  line of the injector (its directory follows the child's bitness, and it names the
  child's process id).
\<close>

datatype command = Caller nat | Injector bool nat

datatype os_event =
    Original command "32 word"
  | ResumeThread nat
  | CreateProcessW command "os_event list"
  | WaitForSingleObject nat
  | GetExitCodeProcess nat
  | InjectDll nat
  | CallExport nat

record os_oracle =
  real_CreateProcessInternalW :: "command \<Rightarrow> 32 word \<Rightarrow> bool \<times> process_information"
  self_wow64 :: bool
  IsWoW64Process :: "nat \<Rightarrow> bool"
  ResumeThread_ok :: "nat \<Rightarrow> bool"
  WaitForSingleObject_ok :: "nat \<Rightarrow> bool"
  exit_code_of :: "nat \<Rightarrow> 32 word option"
  InjectDll_ok :: "nat \<Rightarrow> bool"
  CallExport_ok :: "nat \<Rightarrow> bool"

datatype hook_error =
    ResumeThreadFailed
  | CreateProcessWFailed
  | WaitForSingleObjectFailed
  | GetExitCodeProcessFailed
  | InjectorFailed
  | InjectFailed

datatype 'a outcome = Returns 'a | Throws hook_error | Aborts

text \<open>
  \<^verbatim>\<open>~EnsureResumeThread\<close>: \<^verbatim>\<open>Cleanup\<close> calls \<^verbatim>\<open>ResumeThread\<close> and throws when it
  fails; the destructor catches, traces and asserts.
\<close>

definition EnsureResumeThread_Cleanup :: "os_oracle \<Rightarrow> nat \<Rightarrow> unit outcome \<times> os_event list" where
  "EnsureResumeThread_Cleanup os h =
     (if ResumeThread_ok os h then (Returns (), [ResumeThread h])
      else (Throws ResumeThreadFailed, [ResumeThread h]))"

definition EnsureResumeThread_destructor ::
  "build \<Rightarrow> os_oracle \<Rightarrow> nat \<Rightarrow> unit outcome \<times> os_event list" where
  "EnsureResumeThread_destructor b os h =
     (case EnsureResumeThread_Cleanup os h of
        (Returns x, es) \<Rightarrow> (Returns (), es)
      | (Throws e, es) \<Rightarrow> if assertions b then (Aborts, es) else (Returns (), es)
      | (Aborts, es) \<Rightarrow> (Aborts, es))"

text \<open>
  Leaving the function with the value \<open>r\<close>: the \<^verbatim>\<open>std::unique_ptr<EnsureResumeThread>\<close>
  is destroyed, which resumes the thread if the pointer was set.
\<close>

definition leave ::
  "build \<Rightarrow> os_oracle \<Rightarrow> nat option \<Rightarrow> 'a \<Rightarrow> os_event list \<Rightarrow> 'a outcome \<times> os_event list" where
  "leave b os resume_thread r evs =
     (case resume_thread of
        None \<Rightarrow> (Returns r, evs)
      | Some h \<Rightarrow>
          (case EnsureResumeThread_destructor b os h of
             (Returns x, es) \<Rightarrow> (Returns r, evs @ es)
           | (Throws e, es) \<Rightarrow> (Aborts, evs @ es)
           | (Aborts, es) \<Rightarrow> (Aborts, evs @ es)))"

text \<open>The injector has been started: wait for it and read its exit code.\<close>

definition await_injector :: "os_oracle \<Rightarrow> nat \<Rightarrow> unit outcome \<times> os_event list" where
  "await_injector os h =
     (if \<not> WaitForSingleObject_ok os h
      then (Throws WaitForSingleObjectFailed, [WaitForSingleObject h])
      else
        (case exit_code_of os h of
           None \<Rightarrow> (Throws GetExitCodeProcessFailed, [WaitForSingleObject h, GetExitCodeProcess h])
         | Some exit_code \<Rightarrow>
             if exit_code \<noteq> 0
             then (Throws InjectorFailed, [WaitForSingleObject h, GetExitCodeProcess h])
             else (Returns (), [WaitForSingleObject h, GetExitCodeProcess h])))"

text \<open>The architectures match: \<^verbatim>\<open>InjectDll\<close>, then \<^verbatim>\<open>CallExport\<close>.\<close>

definition inject_in_process :: "os_oracle \<Rightarrow> nat \<Rightarrow> unit outcome \<times> os_event list" where
  "inject_in_process os pid =
     (if \<not> InjectDll_ok os pid then (Throws InjectFailed, [InjectDll pid])
      else if \<not> CallExport_ok os pid then (Throws InjectFailed, [InjectDll pid, CallExport pid])
      else (Returns (), [InjectDll pid, CallExport pid]))"

text \<open>
  The \<^verbatim>\<open>try\<close> block of the detour. \<open>spawned\<close> is what \<^verbatim>\<open>CreateProcessW\<close> does when it
  starts the injector; it is read only when the architectures differ. An exception that
  leaves the function through \<^verbatim>\<open>noexcept\<close> ends the process.
\<close>

definition inject_child ::
  "build \<Rightarrow> os_oracle \<Rightarrow> process_information \<Rightarrow>
   (bool \<times> process_information) outcome \<times> os_event list \<Rightarrow> unit outcome \<times> os_event list" where
  "inject_child b os process_info spawned =
     (if assertions b \<and> (dwProcessId process_info = 0 \<or> hProcess process_info = 0)
      then (Aborts, [])
      else if self_wow64 os \<noteq> IsWoW64Process os (hProcess process_info) then
        (case spawned of
           (Returns created, es) \<Rightarrow>
             if \<not> fst created
             then (Throws CreateProcessWFailed,
                   [CreateProcessW (Injector (IsWoW64Process os (hProcess process_info))
                      (dwProcessId process_info)) es])
             else
               (case await_injector os (hProcess (snd created)) of
                  (r, es') \<Rightarrow>
                    (r, CreateProcessW (Injector (IsWoW64Process os (hProcess process_info))
                          (dwProcessId process_info)) es # es'))
         | (Throws e, es) \<Rightarrow>
             (Aborts,
              [CreateProcessW (Injector (IsWoW64Process os (hProcess process_info))
                 (dwProcessId process_info)) es])
         | (Aborts, es) \<Rightarrow>
             (Aborts,
              [CreateProcessW (Injector (IsWoW64Process os (hProcess process_info))
                 (dwProcessId process_info)) es]))
      else inject_in_process os (dwProcessId process_info))"

text \<open>
  Modelled from the spec: \<^verbatim>\<open>hadesmem::detail::RecursionProtector\<close> is not among the
  sources; the specification says the hook "sets a thread-local recursion flag", which
  "prevents infinite recursion when the helper itself spawns a process". While the
  protector lives, \<^verbatim>\<open>in_hook\<close> is one more than before.

  The function returns the \<^verbatim>\<open>BOOL\<close> of the underlying call, together with the
  \<^verbatim>\<open>PROCESS_INFORMATION\<close> that call wrote through \<^verbatim>\<open>process_info\<close>.
\<close>

function CreateProcessInternalWDetour ::
  "build \<Rightarrow> os_oracle \<Rightarrow> nat \<Rightarrow> command \<Rightarrow> 32 word \<Rightarrow>
   (bool \<times> process_information) outcome \<times> os_event list" where
  "CreateProcessInternalWDetour b os in_hook args creation_flags =
     (let called = real_CreateProcessInternalW os args (creation_flags OR CREATE_SUSPENDED);
          ret = fst called;
          process_info = snd called;
          resume_thread =
            (if ret \<and> creation_flags AND CREATE_SUSPENDED = 0
             then Some (hThread process_info) else None);
          evs = [Original args (creation_flags OR CREATE_SUSPENDED)]
      in
        if in_hook \<noteq> 0 then leave b os resume_thread called evs
        else if \<not> ret then leave b os resume_thread called evs
        else
          (case inject_child b os process_info
                  (CreateProcessInternalWDetour b os (in_hook + 1)
                     (Injector (IsWoW64Process os (hProcess process_info))
                        (dwProcessId process_info)) 0) of
             (Returns x, es) \<Rightarrow> leave b os resume_thread called (evs @ es)
           | (Throws e, es) \<Rightarrow>
               if assertions b then (Aborts, evs @ es)
               else leave b os resume_thread called (evs @ es)
           | (Aborts, es) \<Rightarrow> (Aborts, evs @ es)))"
  by pat_completeness auto
termination
  by (relation "measure (\<lambda>(b, os, in_hook, args, creation_flags). if in_hook = 0 then 1 else 0)")
     auto

declare CreateProcessInternalWDetour.simps [simp del]

section \<open>Vocabulary of the properties\<close>

text \<open>The bytes an operation leaves where they were: the addresses of a range.\<close>

definition range_addrs :: "addr \<Rightarrow> nat \<Rightarrow> addr set" where
  "range_addrs a n = set (addr_range a n)"

text \<open>Some thread other than the caller has its program counter in \<open>[target, target + n)\<close>.\<close>

definition busy :: "world \<Rightarrow> addr \<Rightarrow> nat \<Rightarrow> bool" where
  "busy w target n =
     list_ex (\<lambda>t. fst t \<noteq> current_tid w \<and> IsExecutingInRange (snd t) target (target + of_nat n))
       (threads w)"

text \<open>A decoder never reports an instruction longer than the input it was given.\<close>

definition decoder_ok :: "decoder \<Rightarrow> bool" where
  "decoder_ok dec = (\<forall>xs. insn_len (dec xs) \<le> length xs)"

text \<open>
  The allocations a detour patch owns, in the order \<^verbatim>\<open>Apply\<close> releases them, and whether
  one of them lies on a page of the 45 bytes \<^verbatim>\<open>Apply\<close> reads at the target.
\<close>

definition owned :: "detour_obj \<Rightarrow> allocation list" where
  "owned p = (case det_trampoline p of None \<Rightarrow> [] | Some tr \<Rightarrow> [tr]) @ det_trampolines p"

definition prologue_pages :: "detour_obj \<Rightarrow> addr set" where
  "prologue_pages p = page_of ` range_addrs (det_target p) kTrampSize"

definition owns_prologue :: "detour_obj \<Rightarrow> bool" where
  "owns_prologue p = list_ex (\<lambda>a. page_of (alloc_base a) \<in> prologue_pages p) (owned p)"

text \<open>
  Between two states the patch object holds the same trampoline and the same islands,
  no allocation has been released, and the same pages are committed.
\<close>

definition kept_allocations :: "detour_obj \<times> world \<Rightarrow> detour_obj \<times> world \<Rightarrow> bool" where
  "kept_allocations s0 s =
     (det_trampoline (fst s) = det_trampoline (fst s0) \<and>
      det_trampolines (fst s) = det_trampolines (fst s0) \<and>
      freed (snd s) = freed (snd s0) \<and>
      committed (snd s) = committed (snd s0))"

text \<open>
  The push/ret sequence \<^verbatim>\<open>WriteJump\<close> chooses for a destination: the 14-byte form when
  the high half of the address is not zero, the 6-byte form otherwise.
\<close>

definition push_ret :: "addr \<Rightarrow> byte list" where
  "push_ret target =
     (if ucast (drop_bit 32 target AND 0xFFFFFFFF) \<noteq> (0 :: 32 word)
      then GenPush64Ret target else GenPush32Ret target)"

text \<open>Calls made on a patch object one after the other, stopping at the first that fails.\<close>

datatype call = CallApply | CallRemove | CallDetach

fun raw_calls :: "build \<Rightarrow> call list \<Rightarrow> (raw_obj \<times> world, unit) op" where
  "raw_calls b [] = ret ()"
| "raw_calls b (CallApply # cs) = andThen (PatchRaw_Apply b) (\<lambda>_. raw_calls b cs)"
| "raw_calls b (CallRemove # cs) = andThen PatchRaw_Remove (\<lambda>_. raw_calls b cs)"
| "raw_calls b (CallDetach # cs) = andThen PatchRaw_Detach (\<lambda>_. raw_calls b cs)"

fun detour_calls :: "build \<Rightarrow> decoder \<Rightarrow> call list \<Rightarrow> (detour_obj \<times> world, unit) op" where
  "detour_calls b dec [] = ret ()"
| "detour_calls b dec (CallApply # cs) =
     andThen (PatchDetour_Apply b dec) (\<lambda>_. detour_calls b dec cs)"
| "detour_calls b dec (CallRemove # cs) =
     andThen (PatchDetour_Remove b) (\<lambda>_. detour_calls b dec cs)"
| "detour_calls b dec (CallDetach # cs) =
     andThen PatchDetour_Detach (\<lambda>_. detour_calls b dec cs)"

text \<open>Events of the detour itself, not of a detour entered from inside it.\<close>

fun is_resume :: "os_event \<Rightarrow> bool" where
  "is_resume (ResumeThread h) = True"
| "is_resume e = False"

fun is_injection :: "os_event \<Rightarrow> bool" where
  "is_injection (Original c f) = False"
| "is_injection (ResumeThread h) = False"
| "is_injection e = True"

section \<open>Worked examples\<close>

text \<open>
  A release build for x64; a process whose page \<open>0x20000\<close> is committed and filled with
  \<^verbatim>\<open>nop\<close>, where the allocator can hand out the pages at \<open>0x10000\<close> and \<open>0x11000\<close>;
  two threads, the caller being thread 1; and a decoder that knows \<^verbatim>\<open>nop\<close>, \<^verbatim>\<open>int3\<close>
  and \<^verbatim>\<open>jmp rel32\<close>.
\<close>

definition example_build :: build where
  "example_build = \<lparr>target_arch = X64, assertions = False\<rparr>"

definition example_debug_build :: build where
  "example_debug_build = \<lparr>target_arch = X64, assertions = True\<rparr>"

definition example_context :: thread_context where
  "example_context = \<lparr>Dr0 = 0, Dr1 = 0, Dr2 = 0, Dr3 = 0, Dr6 = 0, Dr7 = 0\<rparr>"

definition example_world :: world where
  "example_world =
     \<lparr>mem = (\<lambda>a. 0x90), committed = (\<lambda>p. p = 0x20),
      allocatable = (\<lambda>p. p = 0x10 \<or> p = 0x11),
      os_order = [0x10000, 0x11000], freed = [],
      threads = [(1, 0x500000), (2, 0x600000)],
      current_tid = 1, min_app_addr = 0x10000, max_app_addr = 0x7FFFFFFEFFFF,
      veh_hooks = (\<lambda>a. None), dr_hooks = (\<lambda>t. None), contexts = (\<lambda>t. example_context),
      end_second = 0, events = []\<rparr>"

text \<open>The same process with thread 2 stopped two bytes into the target.\<close>

definition example_busy_world :: world where
  "example_busy_world = example_world\<lparr>threads := [(1, 0x500000), (2, 0x20002)]\<rparr>"

definition example_raw :: raw_obj where
  "example_raw =
     \<lparr>raw_applied = False, raw_detached = False, raw_target = 0x20000,
      raw_data = [0xCC, 0xC3], raw_orig = []\<rparr>"

definition example_detour :: detour_obj where
  "example_detour =
     \<lparr>dyn_type = PatchDetour, this_ptr = 1, det_applied = False, det_detached = False,
      det_target = 0x20000, det_detour = 0x20100, det_trampoline = None, det_orig = [],
      det_trampolines = [], det_ref_count = 0\<rparr>"

definition example_int3 :: detour_obj where
  "example_int3 = example_detour\<lparr>dyn_type := PatchInt3\<rparr>"

definition example_int3_second :: detour_obj where
  "example_int3_second = example_detour\<lparr>dyn_type := PatchInt3, this_ptr := 2\<rparr>"

definition example_dr :: detour_obj where
  "example_dr = example_detour\<lparr>dyn_type := PatchDr\<rparr>"

definition example_decoder :: decoder where
  "example_decoder xs =
     (case xs of
        [] \<Rightarrow> \<lparr>insn_len = 0, insn_mnemonic = UD_Iother, insn_opr0 = None\<rparr>
      | x # rest \<Rightarrow>
          if x = 0x90 \<or> x = 0xCC then
            \<lparr>insn_len = 1, insn_mnemonic = UD_Iother, insn_opr0 = None\<rparr>
          else if x = 0xE9 \<and> 4 \<le> length rest then
            \<lparr>insn_len = 5, insn_mnemonic = UD_Ijmp,
             insn_opr0 = Some \<lparr>opr_type = UD_OP_JIMM, opr_size = 32, opr_base = UD_NONE,
                               opr_index = UD_NONE, opr_scale = 0, opr_offset = 0,
                               opr_lval = from_le (take 4 rest)\<rparr>\<rparr>
          else \<lparr>insn_len = 0, insn_mnemonic = UD_Iother, insn_opr0 = None\<rparr>)"

text \<open>
  A small process: its application addresses are the two pages from \<open>0x20000\<close> to
  \<open>0x21FFF\<close>. The target, on the first page, starts with \<^verbatim>\<open>jmp +0\<close>; the second page
  is the only one the allocator can hand out.
\<close>

definition example_far_world :: world where
  "example_far_world =
     example_world
       \<lparr>mem := (\<lambda>a. if a = 0x20000 then 0xE9
                     else if a = 0x20001 \<or> a = 0x20002 \<or> a = 0x20003 \<or> a = 0x20004 then 0
                     else 0x90),
        allocatable := (\<lambda>p. p = 0x21), os_order := [0x21000],
        min_app_addr := 0x20000, max_app_addr := 0x21FFF\<rparr>"

text \<open>
  The process of the first example with thread 2 stopped two bytes into the target and
  with a target whose bytes the decoder does not know.
\<close>

definition example_undecodable_world :: world where
  "example_undecodable_world = example_busy_world\<lparr>mem := (\<lambda>a. 0x06)\<rparr>"

text \<open>An operating system for the \<^verbatim>\<open>CreateProcessInternalW\<close> detour.\<close>

definition example_os :: os_oracle where
  "example_os =
     \<lparr>real_CreateProcessInternalW =
        (\<lambda>c f. case c of
                  Caller n \<Rightarrow> (True, \<lparr>hProcess = 100, hThread = 101, dwProcessId = 7\<rparr>)
                | Injector x pid \<Rightarrow> (True, \<lparr>hProcess = 200, hThread = 201, dwProcessId = 8\<rparr>)),
      self_wow64 = False,
      IsWoW64Process = (\<lambda>h. h = 100),
      ResumeThread_ok = (\<lambda>h. True),
      WaitForSingleObject_ok = (\<lambda>h. True),
      exit_code_of = (\<lambda>h. Some 0),
      InjectDll_ok = (\<lambda>pid. True),
      CallExport_ok = (\<lambda>pid. True)\<rparr>"

section \<open>Vocabulary of the proofs\<close>

text \<open>
  A triple for operations: from a state satisfying \<open>P\<close>, the operation returns \<open>x\<close> in a
  state satisfying \<open>Q x\<close>, or it throws or aborts in a state satisfying \<open>E\<close>.
\<close>

definition hoare ::
  "('s \<Rightarrow> bool) \<Rightarrow> ('s, 'a) op \<Rightarrow> ('a \<Rightarrow> 's \<Rightarrow> bool) \<Rightarrow> ('s \<Rightarrow> bool) \<Rightarrow> bool" where
  "hoare P m Q E =
     (\<forall>s. P s \<longrightarrow>
        (case m s of
           (Ok x, s') \<Rightarrow> Q x s'
         | (Throw e, s') \<Rightarrow> E s'
         | (Abort, s') \<Rightarrow> E s'))"

text \<open>
  The bytes at the addresses of \<open>T\<close> are committed and are those of \<open>m0\<close>; an allocation
  is page-aligned and its page holds no address of \<open>T\<close>.
\<close>

definition keeps :: "addr set \<Rightarrow> (addr \<Rightarrow> byte) \<Rightarrow> world \<Rightarrow> bool" where
  "keeps T m0 w = (\<forall>a\<in>T. committed w (page_of a) \<and> mem w a = m0 a)"

definition fresh_for :: "addr set \<Rightarrow> allocation \<Rightarrow> bool" where
  "fresh_for T tr =
     (alloc_base tr = page_base (page_of (alloc_base tr)) \<and>
      page_of (alloc_base tr) \<notin> page_of ` T)"

text \<open>
  What an operation on a detour patch leaves alone: the bytes of \<open>T\<close>, the log of
  released allocations up to \<open>F\<close>, the threads, and the fields of the object that no
  operation but \<open>Detach\<close> and the end of \<open>Apply\<close> and \<open>Remove\<close> assigns.
\<close>

definition world_inv ::
  "addr set \<Rightarrow> (addr \<Rightarrow> byte) \<Rightarrow> allocation list \<Rightarrow> world \<Rightarrow> world \<Rightarrow> bool" where
  "world_inv T m0 F w0 w =
     (keeps T m0 w \<and> take (length F) (freed w) = F \<and>
      threads w = threads w0 \<and> current_tid w = current_tid w0)"

definition obj_inv :: "detour_obj \<Rightarrow> detour_obj \<Rightarrow> bool" where
  "obj_inv p0 p =
     (dyn_type p = dyn_type p0 \<and> this_ptr p = this_ptr p0 \<and>
      det_applied p = det_applied p0 \<and> det_detached p = det_detached p0 \<and>
      det_target p = det_target p0 \<and> det_detour p = det_detour p0)"

definition state_inv ::
  "addr set \<Rightarrow> (addr \<Rightarrow> byte) \<Rightarrow> allocation list \<Rightarrow> detour_obj \<Rightarrow> world \<Rightarrow>
   detour_obj \<times> world \<Rightarrow> bool" where
  "state_inv T m0 F p0 w0 s = (obj_inv p0 (fst s) \<and> world_inv T m0 F w0 (snd s))"

section \<open>Addresses, pages and stores\<close>

lemma set_addr_range: "set (addr_range a n) = (\<lambda>i. a + of_nat i) ` {..<n}"
proof (induction n arbitrary: a)
  case 0
  then show ?case by simp
next
  case (Suc n)
  have "(\<lambda>i. a + of_nat i) ` {..<Suc n} = insert a ((\<lambda>i. a + 1 + of_nat i) ` {..<n})"
  proof -
    have "{..<Suc n} = insert 0 (Suc ` {..<n})"
      by (auto simp: image_iff less_Suc_eq_0_disj)
    then show ?thesis by (simp add: image_image add.assoc)
  qed
  with Suc show ?case by simp
qed

lemma length_addr_range [simp]: "length (addr_range a n) = n"
  by (induction n arbitrary: a) simp_all

lemma nth_addr_range: "i < n \<Longrightarrow> addr_range a n ! i = a + of_nat i"
proof (induction n arbitrary: a i)
  case 0
  then show ?case by simp
next
  case (Suc n)
  then show ?case by (cases i) (simp_all add: add.assoc)
qed

lemma store_outside: "x \<notin> set (addr_range a (length xs)) \<Longrightarrow> store m a xs x = m x"
  by (induction xs arbitrary: m a) auto

lemma unat_page_of: "unat (page_of a) = unat a div 4096"
  by (simp add: page_of_def drop_bit_eq_div unat_div_distrib)

lemma unat_page_base_page_of: "unat (page_base (page_of a)) = (unat a div 4096) * 4096"
proof -
  have "unat a < 2 ^ 64" using unsigned_less[of a] by simp
  then have "unat (page_of a) * unat (4096 :: 64 word) < 2 ^ LENGTH(64)"
    by (simp add: unat_page_of)
  then have "unat (page_of a * 4096) = unat (page_of a) * unat (4096 :: 64 word)"
    by (simp only: unat_mult_lem)
  then show ?thesis
    by (simp add: page_base_def push_bit_eq_mult unat_page_of)
qed

lemma in_page:
  assumes "j < 4096"
  shows "page_of (page_base (page_of a) + of_nat j) = page_of a"
proof -
  let ?q = "unat a div 4096"
  have a: "unat a < 2 ^ 64" using unsigned_less[of a] by simp
  then have "?q < 2 ^ 52" by (simp add: less_mult_imp_div_less)
  then have q: "?q * 4096 + j < 2 ^ 64" using assms by simp
  have j: "unat (of_nat j :: 64 word) = j" using assms by (simp add: unat_of_nat)
  have "unat (page_base (page_of a) + of_nat j) = ?q * 4096 + j"
    using q j by (simp add: unat_word_ariths unat_page_base_page_of)
  then have "unat (page_of (page_base (page_of a) + of_nat j)) = unat (page_of a)"
    using assms by (simp add: unat_page_of)
  then show ?thesis by (simp only: word_unat_eq_iff)
qed

lemma page_of_page_base: "page_of (page_base (page_of a)) = page_of a"
  using in_page[of 0 a] by simp

lemma store_inside:
  "i < length xs \<Longrightarrow> length xs \<le> 2 ^ 64 \<Longrightarrow> store m a xs (a + of_nat i) = xs ! i"
proof (induction xs arbitrary: m a i)
  case Nil
  then show ?case by simp
next
  case (Cons x xs)
  show ?case
  proof (cases i)
    case 0
    have "a \<notin> set (addr_range (a + 1) (length xs))"
    proof
      assume "a \<in> set (addr_range (a + 1) (length xs))"
      then obtain k where k: "k < length xs" "a = a + 1 + of_nat k"
        by (auto simp: set_addr_range)
      then have z: "(of_nat (Suc k) :: 64 word) = 0" by (simp add: add.assoc)
      have "Suc k < 2 ^ 64" using k(1) Cons.prems(2) by simp
      then have "unat (of_nat (Suc k) :: 64 word) = Suc k"
        using unat_of_nat[of "Suc k", where 'a=64] by simp
      then show False unfolding z by simp
    qed
    then show ?thesis using 0 by (simp add: store_outside)
  next
    case (Suc k)
    have kk: "k < length xs" "length xs \<le> 2 ^ 64" using Cons.prems Suc by simp_all
    have "store (m(a := x)) (a + 1) xs (a + 1 + of_nat k) = xs ! k"
      by (rule Cons.IH[OF kk])
    then show ?thesis using Suc by (simp add: add.assoc)
  qed
qed


section \<open>Basic facts\<close>

lemmas op_defs =
  ret_def throw_def abort_def andThen_def HADESMEM_DETAIL_ASSERT_def self_def env_def
  set_self_def sys_def sys_do_def in_world_def catch_exception_def on_unwind_def

lemma andThen_self: "andThen self f s = f (fst s) s"
  by (simp add: op_defs)
lemma andThen_env: "andThen env f s = f (snd s) s"
  by (simp add: op_defs)
lemma andThen_ret: "andThen (ret x) f s = f x s"
  by (simp add: op_defs)
lemma andThen_throw: "andThen (throw e) f s = (Throw e, s)"
  by (simp add: op_defs)
lemma andThen_abort: "andThen abort f s = (Abort, s)"
  by (simp add: op_defs)
lemma andThen_set_self: "andThen (set_self g) f s = f () (g (fst s), snd s)"
  by (simp add: op_defs)
lemma andThen_sys_do: "andThen (sys_do g) f s = f () (fst s, g (snd s))"
  by (simp add: op_defs)
lemma andThen_assert:
  "andThen (HADESMEM_DETAIL_ASSERT b c) f s = (if assertions b \<and> \<not> c then (Abort, s) else f () s)"
  by (simp add: op_defs)
lemmas op_simps = andThen_self andThen_env andThen_ret andThen_throw andThen_abort
  andThen_set_self andThen_sys_do andThen_assert ret_def throw_def abort_def set_self_def
  sys_do_def in_world_def HADESMEM_DETAIL_ASSERT_def

lemma find_free_dr_Some:
  "find_free_dr c = Some i \<Longrightarrow> i \<le> 3 \<and> dr_is_free c i"
  by (auto simp: find_free_dr_def split: if_splits)

lemma or_and_not:
  fixes x m k :: "64 word"
  assumes "x AND m = 0" "k AND m = 0"
  shows "(x OR m OR k) AND NOT m = x OR k"
proof (rule bit_eqI)
  fix n
  have "\<not> (bit x n \<and> bit m n)" "\<not> (bit k n \<and> bit m n)"
    using assms by (metis bit_and_iff bit_0_eq bot_apply bot_bool_def)+
  then show "bit ((x OR m OR k) AND NOT m) n = bit (x OR k) n"
    by (auto simp: bit_and_iff bit_or_iff bit_not_iff dest: bit_imp_le_length)
qed

lemma clear_set_dr_hook:
  assumes "i \<le> 3" "dr_is_free c i"
  shows "clear_dr_hook (set_dr_hook c i t) i = c\<lparr>Dr7 := Dr7 c OR 0x100\<rparr>"
proof -
  have i: "i = 0 \<or> i = 1 \<or> i = 2 \<or> i = 3" using assms(1) by arith
  have bit: "Dr7 c AND push_bit (i * 2) 1 = 0" and dr: "dr_get c i = 0"
    using assms(2) by (simp_all add: dr_is_free_def)
  have d7: "(Dr7 c OR push_bit (i * 2) 1 OR 0x100) AND NOT (push_bit (i * 2) 1) = Dr7 c OR 0x100"
  proof -
    have "(0x100 :: 64 word) AND push_bit (i * 2) 1 = 0" using i by (elim disjE) simp_all
    then show ?thesis using or_and_not[OF bit] by simp
  qed
  show ?thesis
    using i dr d7
    by (elim disjE; simp add: clear_dr_hook_def set_dr_hook_def dr_set_def dr_get_def
         break_type_def break_len_def local_enable_def)
qed

section \<open>The near test of the planner\<close>

text \<open>
  Claim C3. The claim: on x64 \<open>IsNear\<close> is true exactly when the displacement
  \<open>target - address - 5\<close> fits a signed 32-bit integer, so the planner picks the 5-byte
  jump for displacements in \<open>[-2^31, 2^31)\<close> and the 6-byte jump otherwise. The code
  compares against the limits of the unsigned 32-bit type. At address \<open>0\<close> and target
  \<open>0x80000005\<close> the displacement is \<open>2^31\<close>, which does not fit, yet \<open>IsNear\<close> holds, the
  planner answers 5, and the jump \<open>GenJmp32\<close> encodes carries the displacement
  \<open>0x80000000\<close>, which the processor reads as \<open>-2^31\<close>. At address and target \<open>0x1000\<close>
  the displacement is \<open>-5\<close>, which fits, yet \<open>IsNear\<close> fails and the planner answers 6.
\<close>

theorem C3_IsNear_uses_unsigned_limits:
  "IsNear \<lparr>target_arch = X64, assertions = a\<rparr> 0 0x80000005
   \<and> \<not> sint (0x80000005 - 0 - 5 :: 64 word) < 2 ^ 31
   \<and> fst (GetPatchSize \<lparr>target_arch = X64, assertions = a\<rparr>
             (p\<lparr>dyn_type := PatchDetour, det_target := 0, det_detour := 0x80000005\<rparr>, w)) = Ok 5
   \<and> GenJmp32 0 0x80000005 = [0xE9, 0, 0, 0, 0x80]
   \<and> sint (ucast (0x80000005 - 0 - 4 - 1 :: 64 word) :: 32 word) = - (2 ^ 31)
   \<and> \<not> IsNear \<lparr>target_arch = X64, assertions = a\<rparr> 0x1000 0x1000
   \<and> - (2 ^ 31) \<le> sint (0x1000 - 0x1000 - 5 :: 64 word)
   \<and> sint (0x1000 - 0x1000 - 5 :: 64 word) < 2 ^ 31
   \<and> fst (GetPatchSize \<lparr>target_arch = X64, assertions = a\<rparr>
             (p\<lparr>dyn_type := PatchDetour, det_target := 0x1000, det_detour := 0x1000\<rparr>, w)) = Ok 6"
  by (simp add: IsNear_def GetPatchSize_def andThen_def self_def ret_def kJmpSize32_def
      kJmpSize64_def GenJmp32_def le32_def)

section \<open>Repeated calls\<close>

text \<open>
  Claim C7. For every patch kind, \<open>Apply\<close> on a patch that is applied and \<open>Remove\<close> on a
  patch that is not applied return without an error and leave the patch object and the
  whole world (memory, allocations, registry) as they were.
\<close>

theorem C7_apply_applied_remove_unapplied_noop:
  "(raw_applied p \<longrightarrow> PatchRaw_Apply b (p, w) = (Ok (), (p, w)))
   \<and> (\<not> raw_applied p \<longrightarrow> PatchRaw_Remove (p, w) = (Ok (), (p, w)))
   \<and> (det_applied q \<longrightarrow> PatchDetour_Apply b dec (q, w) = (Ok (), (q, w)))
   \<and> (\<not> det_applied q \<longrightarrow> PatchDetour_Remove b (q, w) = (Ok (), (q, w)))"
  by (simp add: PatchRaw_Apply_def PatchRaw_Remove_def PatchDetour_Apply_def
      PatchDetour_Remove_def andThen_def self_def ret_def)

theorem C7_witness:
  "raw_applied (example_raw\<lparr>raw_applied := True\<rparr>)
   \<and> PatchRaw_Apply example_build (example_raw\<lparr>raw_applied := True\<rparr>, example_world) =
       (Ok (), (example_raw\<lparr>raw_applied := True\<rparr>, example_world))
   \<and> \<not> raw_applied example_raw
   \<and> PatchRaw_Remove (example_raw, example_world) = (Ok (), (example_raw, example_world))
   \<and> det_applied (example_int3\<lparr>det_applied := True\<rparr>)
   \<and> PatchDetour_Apply example_build example_decoder
         (example_int3\<lparr>det_applied := True\<rparr>, example_world) =
       (Ok (), (example_int3\<lparr>det_applied := True\<rparr>, example_world))
   \<and> \<not> det_applied example_dr
   \<and> PatchDetour_Remove example_build (example_dr, example_world) =
       (Ok (), (example_dr, example_world))"
  using C7_apply_applied_remove_unapplied_noop
          [of "example_raw\<lparr>raw_applied := True\<rparr>" example_build example_world
              "example_int3\<lparr>det_applied := True\<rparr>" example_decoder]
        C7_apply_applied_remove_unapplied_noop
          [of example_raw example_build example_world example_dr example_decoder]
  by (simp add: example_raw_def example_int3_def example_dr_def example_detour_def)

section \<open>The debug-register patch\<close>

lemma AcquireSRWLock_eq:
  "AcquireSRWLock ty m (p, w) =
     (case m (p, record_event (SrwAcquire ty) w) of
        (Abort, s') \<Rightarrow> (Abort, s')
      | (Ok x, s') \<Rightarrow> (Ok x, (fst s', record_event SrwRelease (snd s')))
      | (Throw e, s') \<Rightarrow> (Throw e, (fst s', record_event SrwRelease (snd s'))))"
  by (simp add: AcquireSRWLock_def in_world_def split: prod.split result.split)

lemma PatchDr_WritePatch_eq:
  "PatchDr_WritePatch b (p, w) =
     (if assertions b \<and> veh_hooks w (det_target p) \<noteq> None
      then (Abort, (p, record_event (SrwAcquire Exclusive) w))
      else if assertions b \<and> dr_hooks w (current_tid w) \<noteq> None
      then (Abort, (p, veh_hooks_insert (det_target p) (this_ptr p)
                         (record_event (SrwAcquire Exclusive) w)))
      else case find_free_dr (contexts w (current_tid w)) of
             None \<Rightarrow> (Throw NoFreeDebugRegister,
                       (p, record_event SrwRelease
                             (veh_hooks_erase (det_target p)
                               (veh_hooks_insert (det_target p) (this_ptr p)
                                 (record_event (SrwAcquire Exclusive) w)))))
           | Some i \<Rightarrow>
               (Ok (), (p, record_event SrwRelease
                            (SetThreadContext (current_tid w)
                              (set_dr_hook (contexts w (current_tid w)) i (det_target p))
                              (dr_hooks_insert (current_tid w) (of_nat i)
                                 (veh_hooks_insert (det_target p) (this_ptr p)
                                   (record_event (SrwAcquire Exclusive) w)))))))"
  by (simp add: PatchDr_WritePatch_def AcquireSRWLock_eq op_simps on_unwind_def
      GetThreadContext_def record_event_def split: option.split)

lemma PatchDr_RemovePatch_eq:
  assumes "dr_hooks w (current_tid w) = Some i" "\<not> 3 < i" "veh_hooks w (det_target p) \<noteq> None"
  shows "PatchDr_RemovePatch b (p, w) =
           (Ok (), (p, record_event SrwRelease
                        (veh_hooks_erase (det_target p)
                          (dr_hooks_erase (current_tid w)
                            (SetThreadContext (current_tid w)
                              (clear_dr_hook (contexts w (current_tid w)) (unat i))
                              (record_event (SrwAcquire Exclusive) w))))))"
  using assms
  by (simp add: PatchDr_RemovePatch_def AcquireSRWLock_eq op_simps GetThreadContext_def
      record_event_def)

lemma Dr7_fields_kept:
  fixes x :: "64 word"
  assumes "i \<le> 3"
  shows "drop_bit 16 (x OR push_bit (i * 2) 1 OR 0x100) = drop_bit 16 x"
proof -
  have i: "i = 0 \<or> i = 1 \<or> i = 2 \<or> i = 3" using assms by arith
  have "drop_bit 16 (push_bit (i * 2) 1 :: 64 word) = 0" using i by (elim disjE) simp_all
  moreover have "drop_bit 16 (0x100 :: 64 word) = 0" by simp
  ultimately show ?thesis by (simp add: drop_bit_or)
qed

text \<open>
  Claim C8. The claim: \<open>PatchDr::RemovePatch\<close> undoes every change of
  \<open>PatchDr::WritePatch\<close>, the LE flag (bit 8 of Dr7) included, and restores the debug
  registers to what they were before. The code clears the selected register and its
  L-bit only. In the example process all debug registers are zero before; after
  \<open>WritePatch\<close> and \<open>RemovePatch\<close> Dr7 is \<open>0x100\<close>.
\<close>

theorem C8_counterexample:
  "fst (PatchDr_WritePatch example_build (example_dr, example_world)) = Ok ()
   \<and> fst (PatchDr_RemovePatch example_build
            (snd (PatchDr_WritePatch example_build (example_dr, example_world)))) = Ok ()
   \<and> Dr7 (contexts example_world (current_tid example_world)) = 0
   \<and> Dr7 (contexts (snd (snd (PatchDr_RemovePatch example_build
            (snd (PatchDr_WritePatch example_build (example_dr, example_world))))))
          (current_tid example_world)) = 0x100"
  by code_simp

text \<open>
  Claim C8, amended. Let \<open>WritePatch\<close> succeed for the calling thread: it took the
  exclusive lock, chose the debug register \<open>i\<close>, entered the patch in \<open>veh_hooks\<close> and the
  index in \<open>dr_hooks\<close>, committed a context with the target in register \<open>i\<close> and with
  Dr7 changed by the L-bit of \<open>i\<close> and the LE flag (bit 8) only, and released the lock.
  \<open>RemovePatch\<close>, called in the state \<open>WritePatch\<close> left, succeeds. Between taking
  the exclusive lock and releasing it, and nowhere else, it commits the thread context
  and erases the entry of the thread from \<open>dr_hooks\<close> and the entry of the target from
  \<open>veh_hooks\<close>. It changes Dr7 by clearing the L-bit of \<open>i\<close> only. The patch object, the
  memory, the contexts of the other threads and all other entries of the two maps are
  as before \<open>WritePatch\<close>; in the context of the thread Dr0 to Dr3 and Dr6 are as before
  \<open>WritePatch\<close>, and Dr7 is as before with the LE flag set. The RW and LEN fields
  (bits 16 and up of Dr7) are the same before \<open>WritePatch\<close>, between the two calls and
  after \<open>RemovePatch\<close>.
\<close>

theorem C8_remove_restores_all_but_LE:
  assumes "fst (PatchDr_WritePatch b (p, w)) = Ok ()"
  shows "case find_free_dr (contexts w (current_tid w)) of
           None \<Rightarrow> False
         | Some i \<Rightarrow>
             i \<le> 3
             \<and> snd (PatchDr_WritePatch b (p, w)) =
                 (p, w\<lparr>veh_hooks := (veh_hooks w)(det_target p := Some (this_ptr p)),
                        dr_hooks := (dr_hooks w)(current_tid w := Some (of_nat i)),
                        contexts := (contexts w)(current_tid w :=
                          (dr_set (contexts w (current_tid w)) i (det_target p))
                            \<lparr>Dr7 := Dr7 (contexts w (current_tid w))
                                     OR push_bit (i * 2) 1 OR 0x100\<rparr>),
                        events := events w @
                          [SrwAcquire Exclusive, VehHooksSet (det_target p),
                           DrHooksSet (current_tid w), ContextSet (current_tid w),
                           SrwRelease]\<rparr>)
             \<and> PatchDr_RemovePatch b (snd (PatchDr_WritePatch b (p, w))) =
                 (Ok (),
                  (p, w\<lparr>veh_hooks := (veh_hooks w)(det_target p := None),
                         dr_hooks := (dr_hooks w)(current_tid w := None),
                         contexts := (contexts w)(current_tid w :=
                           (contexts w (current_tid w))
                             \<lparr>Dr7 := Dr7 (contexts w (current_tid w)) OR 0x100\<rparr>),
                         events := events w @
                           [SrwAcquire Exclusive, VehHooksSet (det_target p),
                            DrHooksSet (current_tid w), ContextSet (current_tid w),
                            SrwRelease,
                            SrwAcquire Exclusive, ContextSet (current_tid w),
                            DrHooksErase (current_tid w), VehHooksErase (det_target p),
                            SrwRelease]\<rparr>))
             \<and> Dr7 (contexts w (current_tid w)) OR 0x100 =
                 (Dr7 (contexts w (current_tid w)) OR push_bit (i * 2) 1 OR 0x100)
                   AND NOT (push_bit (i * 2) 1)
             \<and> drop_bit 16 (Dr7 (contexts w (current_tid w)) OR push_bit (i * 2) 1 OR 0x100) =
                 drop_bit 16 (Dr7 (contexts w (current_tid w)))
             \<and> drop_bit 16 (Dr7 (contexts w (current_tid w)) OR 0x100) =
                 drop_bit 16 (Dr7 (contexts w (current_tid w)))"
proof -
  let ?t = "current_tid w"
  let ?c = "contexts w ?t"
  let ?a = "det_target p"
  from assms obtain i where
    f: "find_free_dr ?c = Some i" and
    a: "\<not> (assertions b \<and> veh_hooks w ?a \<noteq> None)"
       "\<not> (assertions b \<and> dr_hooks w ?t \<noteq> None)"
    by (auto simp: PatchDr_WritePatch_eq split: if_splits option.splits)
  from f have i: "i \<le> 3" "dr_is_free ?c i" using find_free_dr_Some by blast+
  have u: "unat (of_nat i :: 64 word) = i" using i(1) by (simp add: unat_of_nat)
  have le: "\<not> 3 < (of_nat i :: 64 word)" using i(1) u by (simp add: word_less_nat_alt)
  have bit: "Dr7 ?c AND push_bit (i * 2) 1 = 0" using i(2) by (simp add: dr_is_free_def)
  have i4: "i = 0 \<or> i = 1 \<or> i = 2 \<or> i = 3" using i(1) by arith
  have le_bit: "(0x100 :: 64 word) AND push_bit (i * 2) 1 = 0"
    using i4 by (elim disjE) simp_all
  have wr: "PatchDr_WritePatch b (p, w) =
              (Ok (), (p, record_event SrwRelease
                           (SetThreadContext ?t (set_dr_hook ?c i ?a)
                             (dr_hooks_insert ?t (of_nat i)
                                (veh_hooks_insert ?a (this_ptr p)
                                  (record_event (SrwAcquire Exclusive) w))))))"
    using a f by (simp add: PatchDr_WritePatch_eq)
  let ?w1 = "record_event SrwRelease
               (SetThreadContext ?t (set_dr_hook ?c i ?a)
                 (dr_hooks_insert ?t (of_nat i)
                    (veh_hooks_insert ?a (this_ptr p)
                      (record_event (SrwAcquire Exclusive) w))))"
  have w1: "dr_hooks ?w1 (current_tid ?w1) = Some (of_nat i)"
           "veh_hooks ?w1 (det_target p) \<noteq> None"
           "current_tid ?w1 = ?t" "contexts ?w1 ?t = set_dr_hook ?c i ?a"
    by (simp_all add: record_event_def SetThreadContext_def dr_hooks_insert_def
        veh_hooks_insert_def)
  have c1: "snd (PatchDr_WritePatch b (p, w)) =
              (p, w\<lparr>veh_hooks := (veh_hooks w)(?a := Some (this_ptr p)),
                     dr_hooks := (dr_hooks w)(?t := Some (of_nat i)),
                     contexts := (contexts w)(?t :=
                       (dr_set ?c i ?a)\<lparr>Dr7 := Dr7 ?c OR push_bit (i * 2) 1 OR 0x100\<rparr>),
                     events := events w @
                       [SrwAcquire Exclusive, VehHooksSet ?a, DrHooksSet ?t, ContextSet ?t,
                        SrwRelease]\<rparr>)"
    unfolding wr
    by (simp add: record_event_def SetThreadContext_def dr_hooks_insert_def
        veh_hooks_insert_def set_dr_hook_def break_type_def break_len_def local_enable_def)
  have c2: "PatchDr_RemovePatch b (snd (PatchDr_WritePatch b (p, w))) =
              (Ok (),
               (p, w\<lparr>veh_hooks := (veh_hooks w)(?a := None),
                      dr_hooks := (dr_hooks w)(?t := None),
                      contexts := (contexts w)(?t := ?c\<lparr>Dr7 := Dr7 ?c OR 0x100\<rparr>),
                      events := events w @
                        [SrwAcquire Exclusive, VehHooksSet ?a, DrHooksSet ?t, ContextSet ?t,
                         SrwRelease,
                         SrwAcquire Exclusive, ContextSet ?t, DrHooksErase ?t,
                         VehHooksErase ?a, SrwRelease]\<rparr>))"
    unfolding wr snd_conv
    apply (subst PatchDr_RemovePatch_eq[OF w1(1) le w1(2)])
    apply (simp only: w1(3) w1(4) u clear_set_dr_hook[OF i])
    apply (simp add: record_event_def SetThreadContext_def dr_hooks_insert_def
        dr_hooks_erase_def veh_hooks_insert_def veh_hooks_erase_def)
    done
  have c3: "Dr7 ?c OR 0x100 = (Dr7 ?c OR push_bit (i * 2) 1 OR 0x100) AND NOT (push_bit (i * 2) 1)"
    using or_and_not[OF bit le_bit] by simp
  have c4: "drop_bit 16 (Dr7 ?c OR push_bit (i * 2) 1 OR 0x100) = drop_bit 16 (Dr7 ?c)"
    by (rule Dr7_fields_kept[OF i(1)])
  have c5: "drop_bit 16 (Dr7 ?c OR 0x100) = drop_bit 16 (Dr7 ?c)"
    by (simp add: drop_bit_or)
  show ?thesis
    unfolding f option.case
    by (intro conjI i(1) c1 c2 c3 c4 c5)
qed

theorem C8_witness:
  "fst (PatchDr_WritePatch example_build (example_dr, example_world)) = Ok ()
   \<and> find_free_dr (contexts example_world (current_tid example_world)) = Some 0
   \<and> PatchDr_RemovePatch example_build
        (snd (PatchDr_WritePatch example_build (example_dr, example_world))) =
       (Ok (),
        (example_dr,
         example_world\<lparr>veh_hooks := (veh_hooks example_world)(det_target example_dr := None),
            dr_hooks := (dr_hooks example_world)(current_tid example_world := None),
            contexts := (contexts example_world)(current_tid example_world :=
              (contexts example_world (current_tid example_world))
                \<lparr>Dr7 := Dr7 (contexts example_world (current_tid example_world)) OR 0x100\<rparr>),
            events := events example_world @
              [SrwAcquire Exclusive, VehHooksSet (det_target example_dr),
               DrHooksSet (current_tid example_world), ContextSet (current_tid example_world),
               SrwRelease,
               SrwAcquire Exclusive, ContextSet (current_tid example_world),
               DrHooksErase (current_tid example_world), VehHooksErase (det_target example_dr),
               SrwRelease]\<rparr>))"
proof -
  have h: "fst (PatchDr_WritePatch example_build (example_dr, example_world)) = Ok ()"
    by code_simp
  have f: "find_free_dr (contexts example_world (current_tid example_world)) = Some 0"
    by code_simp
  note t = C8_remove_restores_all_but_LE [OF h, unfolded f option.case]
  show ?thesis
  proof (intro conjI)
    show "fst (PatchDr_WritePatch example_build (example_dr, example_world)) = Ok ()"
      by (rule h)
    show "find_free_dr (contexts example_world (current_tid example_world)) = Some 0"
      by (rule f)
    show "PatchDr_RemovePatch example_build
            (snd (PatchDr_WritePatch example_build (example_dr, example_world))) =
          (Ok (),
           (example_dr,
            example_world\<lparr>veh_hooks := (veh_hooks example_world)(det_target example_dr := None),
              dr_hooks := (dr_hooks example_world)(current_tid example_world := None),
              contexts := (contexts example_world)(current_tid example_world :=
                (contexts example_world (current_tid example_world))
                  \<lparr>Dr7 := Dr7 (contexts example_world (current_tid example_world)) OR 0x100\<rparr>),
              events := events example_world @
                [SrwAcquire Exclusive, VehHooksSet (det_target example_dr),
                 DrHooksSet (current_tid example_world), ContextSet (current_tid example_world),
                 SrwRelease,
                 SrwAcquire Exclusive, ContextSet (current_tid example_world),
                 DrHooksErase (current_tid example_world), VehHooksErase (det_target example_dr),
                 SrwRelease]\<rparr>))"
      by (rule t[THEN conjunct2, THEN conjunct2, THEN conjunct1])
  qed
qed

section \<open>Two breakpoint patches at one address\<close>

text \<open>
  Claim C5. The claim: with a first \<open>PatchInt3\<close> applied at an address, \<open>Apply\<close> of a
  second one at the same address fails with \<open>DuplicateHook\<close> and the first stays
  registered. \<open>PatchInt3::WritePatch\<close> only asserts that the address is not registered and
  then stores \<open>this\<close> under it. In the example process, in a release build, the second
  \<open>Apply\<close> succeeds: it saves the first patch's \<open>0xCC\<close> as the original byte and the
  registry entry of the address now names the second object. In a debug build the
  assertion stops the process; no line raises an error.
\<close>

theorem C5_second_breakpoint_replaces_first:
  "(case PatchDetour_Apply example_build example_decoder (example_int3, example_world) of
      (first_result, first, w1) \<Rightarrow>
        (case PatchDetour_Apply example_build example_decoder (example_int3_second, w1) of
           (second_result, second, w2) \<Rightarrow>
             first_result = Ok () \<and> det_applied first
             \<and> veh_hooks w1 0x20000 = Some (this_ptr example_int3)
             \<and> second_result = Ok () \<and> det_applied second \<and> det_orig second = [0xCC]
             \<and> veh_hooks w2 0x20000 = Some (this_ptr example_int3_second)
             \<and> this_ptr example_int3_second \<noteq> this_ptr example_int3))"
  by code_simp


lemma second_breakpoint_asserts_in_debug_build:
  "(case PatchDetour_Apply example_debug_build example_decoder (example_int3, example_world) of
      (first_result, first, w1) \<Rightarrow>
        (case PatchDetour_Apply example_debug_build example_decoder (example_int3_second, w1) of
           (second_result, second, w2) \<Rightarrow>
             first_result = Ok () \<and> second_result = Abort))"
  by code_simp
section \<open>The \<^verbatim>\<open>CreateProcessInternalW\<close> detour\<close>


lemma leave_shape:
  "leave b os rt r evs = (out, es) \<Longrightarrow>
   es = evs @ (case rt of None \<Rightarrow> [] | Some h \<Rightarrow> [ResumeThread h]) \<and>
   (out = Returns r \<or> out = Aborts \<and> rt \<noteq> None)"
  by (auto simp add: leave_def EnsureResumeThread_destructor_def EnsureResumeThread_Cleanup_def
      split: option.splits if_splits)

lemma await_injector_events:
  "await_injector os h = (r, es) \<Longrightarrow> list_all is_injection es"
  by (auto simp add: await_injector_def split: option.splits if_splits)

lemma inject_in_process_events:
  "inject_in_process os pid = (r, es) \<Longrightarrow> list_all is_injection es"
  by (auto simp add: inject_in_process_def split: if_splits)

lemma inject_child_events:
  "inject_child b os process_info spawned = (r, es) \<Longrightarrow> list_all is_injection es"
  by (auto simp add: inject_child_def split: if_splits prod.splits outcome.splits
      dest: await_injector_events inject_in_process_events)

text \<open>
  Claim C9. The events of one call of the detour are: first the underlying call, made
  once, with \<open>CREATE_SUSPENDED\<close> set in the flags it is given; then the events of the
  injection (\<open>mid\<close>), none when the detour was entered with \<open>in_hook\<close> set; then (\<open>tail\<close>)
  at most one \<open>ResumeThread\<close>, of the child's initial thread, issued only when the
  underlying call succeeded and the caller's flags lacked \<open>CREATE_SUSPENDED\<close>. Whenever
  the detour returns, it returns what the underlying call returned, and under that same
  condition the \<open>ResumeThread\<close> has been issued, on whichever path it returned. (A
  detour that does not return has stopped the process on an assertion of a debug build.)
\<close>

theorem C9_forced_suspend_and_resume:
  "\<exists>mid tail.
     snd (CreateProcessInternalWDetour b os in_hook args creation_flags) =
       Original args (creation_flags OR CREATE_SUSPENDED) # mid @ tail
     \<and> (creation_flags OR CREATE_SUSPENDED) AND CREATE_SUSPENDED = CREATE_SUSPENDED
     \<and> list_all is_injection mid
     \<and> (in_hook \<noteq> 0 \<longrightarrow> mid = [])
     \<and> (tail = [] \<or>
         tail = [ResumeThread (hThread (snd (real_CreateProcessInternalW os args
                   (creation_flags OR CREATE_SUSPENDED))))])
     \<and> (tail \<noteq> [] \<longrightarrow>
          fst (real_CreateProcessInternalW os args (creation_flags OR CREATE_SUSPENDED))
          \<and> creation_flags AND CREATE_SUSPENDED = 0)
     \<and> (\<forall>x. fst (CreateProcessInternalWDetour b os in_hook args creation_flags) = Returns x \<longrightarrow>
           x = real_CreateProcessInternalW os args (creation_flags OR CREATE_SUSPENDED)
           \<and> (fst x \<and> creation_flags AND CREATE_SUSPENDED = 0 \<longrightarrow> tail \<noteq> []))"
proof -
  let ?called = "real_CreateProcessInternalW os args (creation_flags OR CREATE_SUSPENDED)"
  let ?cond = "fst ?called \<and> creation_flags AND CREATE_SUSPENDED = 0"
  let ?rt = "if ?cond then Some (hThread (snd ?called)) else None"
  let ?ev = "Original args (creation_flags OR CREATE_SUSPENDED)"
  let ?inj = "inject_child b os (snd ?called)
                  (CreateProcessInternalWDetour b os (in_hook + 1)
                     (Injector (IsWoW64Process os (hProcess (snd ?called)))
                        (dwProcessId (snd ?called))) 0)"
  let ?D = "CreateProcessInternalWDetour b os in_hook args creation_flags"
  let ?tail = "case ?rt of None \<Rightarrow> [] | Some h \<Rightarrow> [ResumeThread h]"
  have flags: "(creation_flags OR CREATE_SUSPENDED) AND CREATE_SUSPENDED = CREATE_SUSPENDED"
    by (simp add: bit.conj_disj_distrib2 and.commute)
  have tail: "(?tail = [] \<or> ?tail = [ResumeThread (hThread (snd ?called))])
              \<and> (?tail \<noteq> [] \<longrightarrow> ?cond) \<and> (?cond \<longrightarrow> ?tail \<noteq> [])"
    by simp
  have shape: "\<exists>mid tail. snd ?D = ?ev # mid @ tail \<and> list_all is_injection mid
      \<and> (in_hook \<noteq> 0 \<longrightarrow> mid = [])
      \<and> (tail = ?tail \<and> (fst ?D = Returns ?called \<or> fst ?D = Aborts) \<or> tail = [] \<and> fst ?D = Aborts)"
  proof (cases "in_hook \<noteq> 0 \<or> \<not> fst ?called")
    case True
    then have eq: "?D = leave b os ?rt ?called [?ev]"
      by (subst CreateProcessInternalWDetour.simps) (auto simp: Let_def)
    obtain out es where l: "leave b os ?rt ?called [?ev] = (out, es)" by (cases "leave b os ?rt ?called [?ev]")
    from leave_shape[OF l] have "es = ?ev # [] @ ?tail" "out = Returns ?called \<or> out = Aborts"
      by auto
    then show ?thesis
      unfolding eq l by (intro exI[of _ "[]"] exI[of _ ?tail]) simp
  next
    case False
    obtain r es where inj: "?inj = (r, es)" by (cases ?inj)
    have mid: "list_all is_injection es" using inject_child_events[OF inj] .
    have eq: "?D = (case r of
                      Returns x \<Rightarrow> leave b os ?rt ?called ([?ev] @ es)
                    | Throws e \<Rightarrow> if assertions b then (Aborts, [?ev] @ es)
                                  else leave b os ?rt ?called ([?ev] @ es)
                    | Aborts \<Rightarrow> (Aborts, [?ev] @ es))"
      using False inj
      by (subst CreateProcessInternalWDetour.simps) (simp add: Let_def)
    obtain out es' where l: "leave b os ?rt ?called ([?ev] @ es) = (out, es')"
      by (cases "leave b os ?rt ?called ([?ev] @ es)")
    from leave_shape[OF l] have l': "es' = ?ev # es @ ?tail" "out = Returns ?called \<or> out = Aborts"
      by auto
    have "snd ?D = ?ev # es @ ?tail \<and> (fst ?D = Returns ?called \<or> fst ?D = Aborts)
          \<or> snd ?D = ?ev # es @ [] \<and> fst ?D = Aborts"
      unfolding eq using l l' by (cases r) auto
    then show ?thesis
      using mid False by blast
  qed
  then obtain mid tl where
    s: "snd ?D = ?ev # mid @ tl" "list_all is_injection mid" "in_hook \<noteq> 0 \<longrightarrow> mid = []"
       "tl = ?tail \<and> (fst ?D = Returns ?called \<or> fst ?D = Aborts) \<or> tl = [] \<and> fst ?D = Aborts"
    by blast
  have c1: "tl = [] \<or> tl = [ResumeThread (hThread (snd ?called))]"
    using s(4) by (cases ?cond) auto
  have c2: "tl \<noteq> [] \<longrightarrow> ?cond"
    using s(4) by (cases ?cond) auto
  have c3: "\<forall>x. fst ?D = Returns x \<longrightarrow>
              x = ?called \<and> (fst x \<and> creation_flags AND CREATE_SUSPENDED = 0 \<longrightarrow> tl \<noteq> [])"
    using s(4) by (cases ?cond) auto
  show ?thesis
    using s(1) s(2) s(3) flags c1 c2 c3
    by (intro exI[of _ mid] exI[of _ tl] conjI)
qed


theorem C9_witness:
  "last (snd (CreateProcessInternalWDetour example_build example_os 0 (Caller 1) 0)) =
     ResumeThread 101
   \<and> fst (CreateProcessInternalWDetour example_build example_os 0 (Caller 1) 0) =
       Returns (True, \<lparr>hProcess = 100, hThread = 101, dwProcessId = 7\<rparr>)
   \<and> snd (CreateProcessInternalWDetour example_build example_os 1 (Caller 1) 0) =
       [Original (Caller 1) 4, ResumeThread 101]"
proof -
  have r: "fst (CreateProcessInternalWDetour example_build example_os 0 (Caller 1) 0) =
       Returns (True, \<lparr>hProcess = 100, hThread = 101, dwProcessId = 7\<rparr>)"
    by code_simp
  have r1: "fst (CreateProcessInternalWDetour example_build example_os 1 (Caller 1) 0) =
       Returns (True, \<lparr>hProcess = 100, hThread = 101, dwProcessId = 7\<rparr>)"
    by code_simp
  have c: "real_CreateProcessInternalW example_os (Caller 1) (0 OR CREATE_SUSPENDED) =
      (True, \<lparr>hProcess = 100, hThread = 101, dwProcessId = 7\<rparr>)"
    by (simp add: example_os_def)
  have f: "(0 :: 32 word) OR CREATE_SUSPENDED = 4" "(0 :: 32 word) AND CREATE_SUSPENDED = 0"
    by (simp_all add: CREATE_SUSPENDED_def)
  show ?thesis
    using C9_forced_suspend_and_resume [of example_build example_os 0 "Caller 1" 0]
          C9_forced_suspend_and_resume [of example_build example_os 1 "Caller 1" 0] r r1 c f
    by auto
qed

section \<open>Detached patches\<close>


lemma PatchRaw_Apply_detached:
  "raw_detached p \<Longrightarrow> \<not> raw_applied p \<Longrightarrow>
   PatchRaw_Apply b (p, w) = (if assertions b then Abort else Ok (), (p, w))"
  by (simp add: PatchRaw_Apply_def op_simps)

lemma PatchRaw_Remove_unapplied:
  "\<not> raw_applied p \<Longrightarrow> PatchRaw_Remove (p, w) = (Ok (), (p, w))"
  by (simp add: PatchRaw_Remove_def op_simps)

lemma PatchDetour_Apply_detached:
  "det_detached p \<Longrightarrow> \<not> det_applied p \<Longrightarrow>
   PatchDetour_Apply b dec (p, w) = (if assertions b then Abort else Ok (), (p, w))"
  by (simp add: PatchDetour_Apply_def op_simps)

lemma PatchDetour_Remove_unapplied:
  "\<not> det_applied p \<Longrightarrow> PatchDetour_Remove b (p, w) = (Ok (), (p, w))"
  by (simp add: PatchDetour_Remove_def op_simps)

lemma raw_calls_detached:
  "raw_detached p \<Longrightarrow> \<not> raw_applied p \<Longrightarrow>
   raw_detached (fst (snd (raw_calls b cs (p, w)))) \<and>
   \<not> raw_applied (fst (snd (raw_calls b cs (p, w)))) \<and>
   mem (snd (snd (raw_calls b cs (p, w)))) = mem w"
proof (induction cs arbitrary: p)
  case Nil
  then show ?case by (simp add: ret_def)
next
  case (Cons c cs)
  show ?case
  proof (cases c)
    case CallApply
    then show ?thesis
      using Cons by (simp add: andThen_def PatchRaw_Apply_detached)
  next
    case CallRemove
    then show ?thesis
      using Cons by (simp add: andThen_def PatchRaw_Remove_unapplied)
  next
    case CallDetach
    then show ?thesis
      using Cons.prems Cons.IH[of "p\<lparr>raw_applied := False, raw_detached := True\<rparr>"]
      by (simp add: andThen_def PatchRaw_Detach_def set_self_def)
  qed
qed

lemma detour_calls_detached:
  "det_detached p \<Longrightarrow> \<not> det_applied p \<Longrightarrow>
   det_detached (fst (snd (detour_calls b dec cs (p, w)))) \<and>
   \<not> det_applied (fst (snd (detour_calls b dec cs (p, w)))) \<and>
   mem (snd (snd (detour_calls b dec cs (p, w)))) = mem w"
proof (induction cs arbitrary: p)
  case Nil
  then show ?case by (simp add: ret_def)
next
  case (Cons c cs)
  show ?case
  proof (cases c)
    case CallApply
    then show ?thesis
      using Cons by (simp add: andThen_def PatchDetour_Apply_detached)
  next
    case CallRemove
    then show ?thesis
      using Cons by (simp add: andThen_def PatchDetour_Remove_unapplied)
  next
    case CallDetach
    then show ?thesis
      using Cons.prems Cons.IH[of "p\<lparr>det_applied := False, det_detached := True\<rparr>"]
      by (simp add: andThen_def PatchDetour_Detach_def set_self_def)
  qed
qed

lemma mem_Allocator_free: "mem (Allocator_free a w) = mem w"
  by (simp add: Allocator_free_def)

lemma mem_free_all: "mem (free_all as w) = mem w"
  by (induction as arbitrary: w) (simp_all add: mem_Allocator_free)

lemma PatchRaw_RemoveUnchecked_unapplied:
  "\<not> raw_applied p \<Longrightarrow> PatchRaw_RemoveUnchecked b (p, w) = (Ok (), (p, w))"
  by (simp add: PatchRaw_RemoveUnchecked_def andThen_def catch_exception_def
      PatchRaw_Remove_unapplied ret_def)

lemma PatchDetour_destructor_unapplied:
  "\<not> det_applied p \<Longrightarrow>
   fst (PatchDetour_destructor b (p, w)) = Ok () \<and>
   mem (snd (snd (PatchDetour_destructor b (p, w)))) = mem w"
  by (simp add: PatchDetour_destructor_def PatchDetour_RemoveUnchecked_def andThen_def
      catch_exception_def PatchDetour_Remove_unapplied ret_def destroy_members_def
      mem_free_all mem_Allocator_free split: option.split)

text \<open>
  Claim C10. \<open>Detach\<close>, from any state and so from the applied one, leaves the memory as
  it is and the patch not applied. After it, whatever calls of \<open>Apply\<close>, \<open>Remove\<close> and
  \<open>Detach\<close> follow, and when the object is then destroyed, the patch is still not
  applied and the memory is what it was when \<open>Detach\<close> was called: the patched bytes
  stay.
\<close>

theorem C10_detach_keeps_patched_bytes:
  "\<not> PatchRaw_IsApplied (fst (snd (PatchRaw_Detach (p, w))))
   \<and> mem (snd (snd (PatchRaw_Detach (p, w)))) = mem w
   \<and> \<not> PatchRaw_IsApplied (fst (snd (raw_calls b cs (snd (PatchRaw_Detach (p, w))))))
   \<and> mem (snd (snd (raw_calls b cs (snd (PatchRaw_Detach (p, w)))))) = mem w
   \<and> mem (snd (snd (PatchRaw_RemoveUnchecked b
              (snd (raw_calls b cs (snd (PatchRaw_Detach (p, w)))))))) = mem w
   \<and> \<not> PatchDetour_IsApplied (fst (snd (PatchDetour_Detach (q, w))))
   \<and> mem (snd (snd (PatchDetour_Detach (q, w)))) = mem w
   \<and> \<not> PatchDetour_IsApplied
         (fst (snd (detour_calls b dec cs (snd (PatchDetour_Detach (q, w))))))
   \<and> mem (snd (snd (detour_calls b dec cs (snd (PatchDetour_Detach (q, w)))))) = mem w
   \<and> mem (snd (snd (PatchDetour_destructor b
              (snd (detour_calls b dec cs (snd (PatchDetour_Detach (q, w)))))))) = mem w"
proof -
  let ?p = "p\<lparr>raw_applied := False, raw_detached := True\<rparr>"
  let ?q = "q\<lparr>det_applied := False, det_detached := True\<rparr>"
  have dp: "snd (PatchRaw_Detach (p, w)) = (?p, w)"
    by (simp add: PatchRaw_Detach_def set_self_def)
  have dq: "snd (PatchDetour_Detach (q, w)) = (?q, w)"
    by (simp add: PatchDetour_Detach_def set_self_def)
  obtain p' w' where rp: "snd (raw_calls b cs (?p, w)) = (p', w')"
    by (cases "snd (raw_calls b cs (?p, w))")
  obtain q' w'' where rq: "snd (detour_calls b dec cs (?q, w)) = (q', w'')"
    by (cases "snd (detour_calls b dec cs (?q, w))")
  have ip: "\<not> raw_applied p'" "mem w' = mem w"
    using raw_calls_detached[of ?p b cs w] rp by simp_all
  have iq: "\<not> det_applied q'" "mem w'' = mem w"
    using detour_calls_detached[of ?q b dec cs w] rq by simp_all
  show ?thesis
    unfolding dp dq rp rq
    using ip iq PatchRaw_RemoveUnchecked_unapplied[of p' b w']
      PatchDetour_destructor_unapplied[of q' b w'']
    by (simp add: PatchRaw_IsApplied_def PatchDetour_IsApplied_def)
qed

theorem C10_witness:
  "fst (PatchRaw_Apply example_build (example_raw, example_world)) = Ok ()
   \<and> map (mem (snd (snd (raw_calls example_build [CallRemove, CallApply]
             (snd (PatchRaw_Detach
                (snd (PatchRaw_Apply example_build (example_raw, example_world))))))))) 
        (addr_range 0x20000 2) = [0xCC, 0xC3]"
proof -
  obtain p1 w1 where a: "snd (PatchRaw_Apply example_build (example_raw, example_world)) = (p1, w1)"
    by (cases "snd (PatchRaw_Apply example_build (example_raw, example_world))")
  have r: "fst (PatchRaw_Apply example_build (example_raw, example_world)) = Ok ()"
    by code_simp
  have m: "map (mem (snd (snd (PatchRaw_Apply example_build (example_raw, example_world)))))
             (addr_range 0x20000 2) = [0xCC, 0xC3]"
    by code_simp
  show ?thesis
    using C10_detach_keeps_patched_bytes [of p1 w1 example_build "[CallRemove, CallApply]"]
      r m a
    by simp
qed
section \<open>Rules for triples\<close>


lemma hoareD:
  "hoare P m Q E \<Longrightarrow> P s \<Longrightarrow>
   (case m s of (Ok x, s') \<Rightarrow> Q x s' | (Throw e, s') \<Rightarrow> E s' | (Abort, s') \<Rightarrow> E s')"
  by (simp add: hoare_def)

lemma hoare_andThen:
  assumes "hoare P m R E" and "\<And>x. hoare (R x) (f x) Q E"
  shows "hoare P (andThen m f) Q E"
  unfolding hoare_def
proof (intro allI impI)
  fix s assume P: "P s"
  obtain r s' where ms: "m s = (r, s')" by (cases "m s")
  show "case andThen m f s of (Ok x, s') \<Rightarrow> Q x s' | (Throw e, s') \<Rightarrow> E s' | (Abort, s') \<Rightarrow> E s'"
  proof (cases r)
    case (Ok x)
    with hoareD[OF assms(1) P] ms have "R x s'" by simp
    from hoareD[OF assms(2) this] show ?thesis by (simp add: andThen_def ms Ok)
  next
    case (Throw e)
    with hoareD[OF assms(1) P] ms show ?thesis by (simp add: andThen_def)
  next
    case Abort
    with hoareD[OF assms(1) P] ms show ?thesis by (simp add: andThen_def)
  qed
qed

lemma hoare_weaken:
  assumes "hoare P' m Q' E'" "\<And>s. P s \<Longrightarrow> P' s" "\<And>x s. Q' x s \<Longrightarrow> Q x s" "\<And>s. E' s \<Longrightarrow> E s"
  shows "hoare P m Q E"
  unfolding hoare_def
proof (intro allI impI)
  fix s assume "P s"
  then have "P' s" by (rule assms(2))
  from hoareD[OF assms(1) this] show
    "case m s of (Ok x, s') \<Rightarrow> Q x s' | (Throw e, s') \<Rightarrow> E s' | (Abort, s') \<Rightarrow> E s'"
    using assms(3,4) by (auto split: prod.splits result.splits)
qed

lemma hoare_pre: "hoare P' m Q E \<Longrightarrow> (\<And>s. P s \<Longrightarrow> P' s) \<Longrightarrow> hoare P m Q E"
  by (erule hoare_weaken) auto

lemma hoare_ret: "(\<And>s. P s \<Longrightarrow> Q x s) \<Longrightarrow> hoare P (ret x) Q E"
  by (simp add: hoare_def ret_def)

lemma hoare_throw: "(\<And>s. P s \<Longrightarrow> E s) \<Longrightarrow> hoare P (throw e) Q E"
  by (simp add: hoare_def throw_def)

lemma hoare_abort: "(\<And>s. P s \<Longrightarrow> E s) \<Longrightarrow> hoare P abort Q E"
  by (simp add: hoare_def abort_def)

lemma hoare_assert:
  "(\<And>s. P s \<Longrightarrow> Q () s) \<Longrightarrow> (\<And>s. P s \<Longrightarrow> E s) \<Longrightarrow> hoare P (HADESMEM_DETAIL_ASSERT b c) Q E"
  by (simp add: hoare_def HADESMEM_DETAIL_ASSERT_def)

lemma hoare_if:
  "(c \<Longrightarrow> hoare P m1 Q E) \<Longrightarrow> (\<not> c \<Longrightarrow> hoare P m2 Q E) \<Longrightarrow> hoare P (if c then m1 else m2) Q E"
  by simp

lemma hoare_self: "(\<And>s. P s \<Longrightarrow> Q (fst s) s) \<Longrightarrow> hoare P self Q E"
  by (simp add: hoare_def self_def)

lemma hoare_env: "(\<And>s. P s \<Longrightarrow> Q (snd s) s) \<Longrightarrow> hoare P env Q E"
  by (simp add: hoare_def env_def)

lemma hoare_set_self: "(\<And>s. P s \<Longrightarrow> Q () (f (fst s), snd s)) \<Longrightarrow> hoare P (set_self f) Q E"
  by (simp add: hoare_def set_self_def)

lemma hoare_sys_do: "(\<And>s. P s \<Longrightarrow> Q () (fst s, f (snd s))) \<Longrightarrow> hoare P (sys_do f) Q E"
  by (simp add: hoare_def sys_do_def)

lemma hoare_sys:
  assumes "\<And>p. hoare (\<lambda>w. P (p, w)) m (\<lambda>x w. Q x (p, w)) (\<lambda>w. E (p, w))"
  shows "hoare P (sys m) Q E"
  unfolding hoare_def
proof (intro allI impI)
  fix s :: "'a \<times> world" assume "P s"
  then have "P (fst s, snd s)" by simp
  from hoareD[OF assms, of "fst s" "snd s", OF this]
  show "case sys m s of (Ok x, s') \<Rightarrow> Q x s' | (Throw e, s') \<Rightarrow> E s' | (Abort, s') \<Rightarrow> E s'"
    by (auto simp: sys_def split: prod.splits result.splits)
qed

lemma hoare_catch:
  assumes "hoare P m (\<lambda>x. Q (Some x)) (\<lambda>s. Q None s \<and> E s)"
  shows "hoare P (catch_exception m) Q E"
  unfolding hoare_def
proof (intro allI impI)
  fix s assume "P s"
  from hoareD[OF assms this]
  show "case catch_exception m s of (Ok x, s') \<Rightarrow> Q x s' | (Throw e, s') \<Rightarrow> E s' | (Abort, s') \<Rightarrow> E s'"
    by (auto simp: catch_exception_def split: prod.splits result.splits)
qed

lemma hoare_on_unwind:
  assumes "hoare P m Q (\<lambda>s. E s \<and> E (c s))"
  shows "hoare P (on_unwind c m) Q E"
  unfolding hoare_def
proof (intro allI impI)
  fix s assume "P s"
  from hoareD[OF assms this]
  show "case on_unwind c m s of (Ok x, s') \<Rightarrow> Q x s' | (Throw e, s') \<Rightarrow> E s' | (Abort, s') \<Rightarrow> E s'"
    by (auto simp: on_unwind_def split: prod.splits result.splits)
qed

lemma hoare_case_option:
  "(x = None \<Longrightarrow> hoare P m1 Q E) \<Longrightarrow> (\<And>y. x = Some y \<Longrightarrow> hoare P (m2 y) Q E) \<Longrightarrow>
   hoare P (case x of None \<Rightarrow> m1 | Some y \<Rightarrow> m2 y) Q E"
  by (cases x) simp_all


section \<open>Memory, allocator and invariants of the world\<close>


lemma keeps_not_page: "keeps T m0 w \<Longrightarrow> \<not> committed w p \<Longrightarrow> p \<notin> page_of ` T"
  by (auto simp: keeps_def)

lemma keeps_commit_page: "keeps T m0 w \<Longrightarrow> \<not> committed w p \<Longrightarrow> keeps T m0 (commit_page p w)"
  by (auto simp: keeps_def commit_page_def)

lemma fresh_notin: "fresh_for T tr \<Longrightarrow> page_of x = page_of (alloc_base tr) \<Longrightarrow> x \<notin> T"
  unfolding fresh_for_def by (metis imageI)

lemma keeps_free: "keeps T m0 w \<Longrightarrow> fresh_for T tr \<Longrightarrow> keeps T m0 (Allocator_free tr w)"
  unfolding keeps_def Allocator_free_def fresh_for_def
  by (metis (no_types, lifting) fun_upd_apply imageI select_convs(1) world.select_convs(1,2) world.surjective world.update_convs(2,5))

lemma keeps_store:
  "keeps T m0 w \<Longrightarrow> set (addr_range a (length xs)) \<inter> T = {} \<Longrightarrow>
   keeps T m0 (w\<lparr>mem := store (mem w) a xs\<rparr>)"
proof -
  assume k: "keeps T m0 w" and d: "set (addr_range a (length xs)) \<inter> T = {}"
  have "store (mem w) a xs x = mem w x" if "x \<in> T" for x
    using that d by (intro store_outside) auto
  then show ?thesis using k by (simp add: keeps_def)
qed

lemma fresh_range:
  assumes "fresh_for T tr" "off + n \<le> 4096"
  shows "set (addr_range (alloc_base tr + of_nat off) n) \<inter> T = {}"
proof -
  have "x \<notin> T" if "x \<in> set (addr_range (alloc_base tr + of_nat off) n)" for x
  proof -
    from that obtain i where i: "i < n" "x = alloc_base tr + of_nat off + of_nat i"
      by (auto simp: set_addr_range)
    have b: "alloc_base tr = page_base (page_of (alloc_base tr))"
      using assms(1) by (simp add: fresh_for_def)
    have "x = page_base (page_of (alloc_base tr)) + of_nat (off + i)"
      using i(2) b by (simp add: add.assoc)
    moreover have "off + i < 4096" using i(1) assms(2) by simp
    ultimately have "page_of x = page_of (alloc_base tr)" by (simp only: in_page)
    then show ?thesis using assms(1) by (rule fresh_notin[rotated])
  qed
  then show ?thesis by auto
qed

lemma take_prefix_append: "take (length F) xs = F \<Longrightarrow> take (length F) (xs @ ys) = F"
proof -
  assume a: "take (length F) xs = F"
  then have "length (take (length F) xs) = length F" by simp
  then have "length F \<le> length xs" by simp
  then show ?thesis using a by simp
qed

lemma world_inv_commit:
  "world_inv T m0 F w0 w \<Longrightarrow> \<not> committed w p \<Longrightarrow> world_inv T m0 F w0 (commit_page p w)"
  by (simp add: world_inv_def keeps_commit_page) (simp add: commit_page_def)

lemma world_inv_free:
  "world_inv T m0 F w0 w \<Longrightarrow> fresh_for T tr \<Longrightarrow> world_inv T m0 F w0 (Allocator_free tr w)"
proof -
  assume I: "world_inv T m0 F w0 w" and f: "fresh_for T tr"
  from I have t: "take (length F) (freed w) = F" by (simp add: world_inv_def)
  have "take (length F) (freed (Allocator_free tr w)) = F"
    using take_prefix_append[OF t, of "[tr]"] by (simp add: Allocator_free_def del: take_append)
  moreover have "threads (Allocator_free tr w) = threads w"
    "current_tid (Allocator_free tr w) = current_tid w"
    by (simp_all add: Allocator_free_def)
  ultimately show ?thesis
    using I keeps_free[OF _ f, of m0 w] by (simp add: world_inv_def)
qed

lemma world_inv_store:
  "world_inv T m0 F w0 w \<Longrightarrow> set (addr_range a (length xs)) \<inter> T = {} \<Longrightarrow>
   world_inv T m0 F w0 (w\<lparr>mem := store (mem w) a xs\<rparr>)"
  by (simp add: world_inv_def keeps_store)

lemma world_inv_registry:
  "world_inv T m0 F w0 w \<Longrightarrow> world_inv T m0 F w0 (veh_hooks_insert a x w)"
  "world_inv T m0 F w0 w \<Longrightarrow> world_inv T m0 F w0 (veh_hooks_erase a w)"
  "world_inv T m0 F w0 w \<Longrightarrow> world_inv T m0 F w0 (dr_hooks_insert t i w)"
  "world_inv T m0 F w0 w \<Longrightarrow> world_inv T m0 F w0 (dr_hooks_erase t w)"
  "world_inv T m0 F w0 w \<Longrightarrow> world_inv T m0 F w0 (SetThreadContext t c w)"
  by (simp_all add: world_inv_def keeps_def veh_hooks_insert_def veh_hooks_erase_def
      dr_hooks_insert_def dr_hooks_erase_def SetThreadContext_def record_event_def)

lemma hoare_ReadVector:
  "hoare P (ReadVector a n) (\<lambda>xs w. P w \<and> xs = map (mem w) (addr_range a n)) P"
  by (simp add: hoare_def ReadVector_def)

lemma hoare_ReadPointer: "hoare P (ReadPointer b a) (\<lambda>x. P) P"
  unfolding ReadPointer_def
  by (rule hoare_andThen[OF hoare_ReadVector]) (simp add: hoare_def ret_def)

lemma hoare_VerifyPatchThreads: "hoare P (VerifyPatchThreads t n) (\<lambda>x. P) P"
  by (simp add: hoare_def VerifyPatchThreads_def split: result.split)

lemma hoare_WriteVector_fresh:
  assumes "fresh_for T tr" "off + length xs \<le> 4096"
  shows "hoare (world_inv T m0 F w0) (WriteVector (alloc_base tr + of_nat off) xs)
           (\<lambda>x. world_inv T m0 F w0) (world_inv T m0 F w0)"
  using world_inv_store[OF _ fresh_range[OF assms]]
  by (simp add: hoare_def WriteVector_def)

lemma length_le64 [simp]: "length (le64 v) = 8"
  by (simp add: le64_def le32_def)

lemma hoare_WritePointer_fresh:
  assumes "fresh_for T tr"
  shows "hoare (world_inv T m0 F w0) (WritePointer b (alloc_base tr) v)
           (\<lambda>x. world_inv T m0 F w0) (world_inv T m0 F w0)"
proof -
  have "0 + length (take (pointer_size b) (le64 v)) \<le> 4096" by simp
  from hoare_WriteVector_fresh[OF assms this, of m0 F w0]
  show ?thesis by (simp add: WritePointer_def)
qed

lemma fresh_for_page:
  "keeps T m0 w \<Longrightarrow> \<not> committed w (page_of a) \<Longrightarrow>
   fresh_for T \<lparr>alloc_base = page_base (page_of a), alloc_size = n\<rparr>"
  by (simp add: fresh_for_def page_of_page_base keeps_not_page)

lemma hoare_TryAlloc:
  "hoare (world_inv T m0 F w0) (TryAlloc n a)
     (\<lambda>r w. world_inv T m0 F w0 w \<and>
             (\<forall>x. r = Some x \<longrightarrow> fresh_for T \<lparr>alloc_base = x, alloc_size = k\<rparr>))
     (world_inv T m0 F w0)"
  using fresh_for_page[of T m0 _ a k]
  by (auto simp: hoare_def TryAlloc_def grantable_def world_inv_commit)
     (auto simp: world_inv_def)

lemma hoare_allocate_tramp:
  "hoare (world_inv T m0 F w0) (allocate_tramp a n)
     (\<lambda>r w. world_inv T m0 F w0 w \<and> (\<forall>tr. r = Some tr \<longrightarrow> fresh_for T tr))
     (world_inv T m0 F w0)"
  unfolding allocate_tramp_def
  by (rule hoare_andThen[OF hoare_TryAlloc[where k = n]])
     (simp add: hoare_def ret_def split: option.split)

lemma hoare_Allocator_new:
  "hoare (world_inv T m0 F w0) (Allocator_new n)
     (\<lambda>tr w. world_inv T m0 F w0 w \<and> fresh_for T tr)
     (world_inv T m0 F w0)"
  unfolding hoare_def
proof (intro allI impI)
  fix w assume I: "world_inv T m0 F w0 w"
  show "case Allocator_new n w of
          (Ok tr, w') \<Rightarrow> world_inv T m0 F w0 w' \<and> fresh_for T tr
        | (Throw e, w') \<Rightarrow> world_inv T m0 F w0 w'
        | (Abort, w') \<Rightarrow> world_inv T m0 F w0 w'"
  proof (cases "filter (\<lambda>a. grantable w (page_of a)) (os_order w)")
    case Nil
    then show ?thesis using I by (simp add: Allocator_new_def)
  next
    case (Cons a as)
    then have "a \<in> set (filter (\<lambda>a. grantable w (page_of a)) (os_order w))" by simp
    then have g: "\<not> committed w (page_of a)" by (simp add: grantable_def)
    from I have "keeps T m0 w" by (simp add: world_inv_def)
    from fresh_for_page[OF this g] world_inv_commit[OF I g] Cons
    show ?thesis by (simp add: Allocator_new_def)
  qed
qed

section \<open>The search for a page near an address\<close>


lemma hoare_gen: "(G \<Longrightarrow> hoare P m Q E) \<Longrightarrow> hoare (\<lambda>s. P s \<and> G) m Q E"
  by (auto simp: hoare_def)

lemma hoare_post_ret: "(\<And>s. P s \<Longrightarrow> Q x s) \<Longrightarrow> hoare P (ret x) Q E"
  by (simp add: hoare_def ret_def)

lemma scan_forward_inv:
  "world_inv T m0 F w0 w \<Longrightarrow>
   (case scan_forward base index e w of
      (Ok r, w') \<Rightarrow> world_inv T m0 F w0 w' \<and> (\<forall>tr. r = Some tr \<longrightarrow> fresh_for T tr)
    | (Throw x, w') \<Rightarrow> world_inv T m0 F w0 w'
    | (Abort, w') \<Rightarrow> world_inv T m0 F w0 w')"
proof (induction base index e w rule: scan_forward.induct)
  case (1 base index search_end w)
  show ?case
  proof (cases "base + index < search_end")
    case False
    then show ?thesis using "1.prems" by (subst scan_forward.simps) simp
  next
    case True
    obtain r w' where al: "allocate_tramp (word_of_int (base + index)) page_size w = (r, w')"
      by (cases "allocate_tramp (word_of_int (base + index)) page_size w")
    have post: "case r of
                  Ok x \<Rightarrow> world_inv T m0 F w0 w' \<and> (\<forall>tr. x = Some tr \<longrightarrow> fresh_for T tr)
                | Throw e \<Rightarrow> world_inv T m0 F w0 w'
                | Abort \<Rightarrow> world_inv T m0 F w0 w'"
      using hoareD[OF hoare_allocate_tramp "1.prems", of "word_of_int (base + index)" page_size]
      unfolding al by simp
    show ?thesis
    proof (cases r)
      case (Ok x)
      show ?thesis
      proof (cases x)
        case None
        have "world_inv T m0 F w0 w'" using post Ok by simp
        from "1.IH"[OF True al[symmetric] Ok None this]
        show ?thesis using True al Ok None by (subst scan_forward.simps) simp
      next
        case (Some tr)
        then show ?thesis using post Ok True al by (subst scan_forward.simps) simp
      qed
    next
      case (Throw e)
      then show ?thesis using post True al by (subst scan_forward.simps) simp
    next
      case Abort
      then show ?thesis using post True al by (subst scan_forward.simps) simp
    qed
  qed
qed

lemma scan_backward_inv:
  "world_inv T m0 F w0 w \<Longrightarrow>
   (case scan_backward base index e w of
      (Ok r, w') \<Rightarrow> world_inv T m0 F w0 w' \<and> (\<forall>tr. r = Some tr \<longrightarrow> fresh_for T tr)
    | (Throw x, w') \<Rightarrow> world_inv T m0 F w0 w'
    | (Abort, w') \<Rightarrow> world_inv T m0 F w0 w')"
proof (induction base index e w rule: scan_backward.induct)
  case (1 base index search_beg w)
  show ?case
  proof (cases "base - index > search_beg")
    case False
    then show ?thesis using "1.prems" by (subst scan_backward.simps) simp
  next
    case True
    obtain r w' where al: "allocate_tramp (word_of_int (base - index)) page_size w = (r, w')"
      by (cases "allocate_tramp (word_of_int (base - index)) page_size w")
    have post: "case r of
                  Ok x \<Rightarrow> world_inv T m0 F w0 w' \<and> (\<forall>tr. x = Some tr \<longrightarrow> fresh_for T tr)
                | Throw e \<Rightarrow> world_inv T m0 F w0 w'
                | Abort \<Rightarrow> world_inv T m0 F w0 w'"
      using hoareD[OF hoare_allocate_tramp "1.prems", of "word_of_int (base - index)" page_size]
      unfolding al by simp
    show ?thesis
    proof (cases r)
      case (Ok x)
      show ?thesis
      proof (cases x)
        case None
        have "world_inv T m0 F w0 w'" using post Ok by simp
        from "1.IH"[OF True al[symmetric] Ok None this]
        show ?thesis using True al Ok None by (subst scan_backward.simps) simp
      next
        case (Some tr)
        then show ?thesis using post Ok True al by (subst scan_backward.simps) simp
      qed
    next
      case (Throw e)
      then show ?thesis using post True al by (subst scan_backward.simps) simp
    next
      case Abort
      then show ?thesis using post True al by (subst scan_backward.simps) simp
    qed
  qed
qed

lemma hoare_scan_forward:
  "hoare (world_inv T m0 F w0) (scan_forward base index e)
     (\<lambda>r w. world_inv T m0 F w0 w \<and> (\<forall>tr. r = Some tr \<longrightarrow> fresh_for T tr))
     (world_inv T m0 F w0)"
  by (simp add: hoare_def scan_forward_inv)

lemma hoare_scan_backward:
  "hoare (world_inv T m0 F w0) (scan_backward base index e)
     (\<lambda>r w. world_inv T m0 F w0 w \<and> (\<forall>tr. r = Some tr \<longrightarrow> fresh_for T tr))
     (world_inv T m0 F w0)"
  by (simp add: hoare_def scan_backward_inv)

lemma hoare_AllocatePageNear:
  "hoare (world_inv T m0 F w0) (AllocatePageNear b address)
     (\<lambda>tr w. world_inv T m0 F w0 w \<and> fresh_for T tr)
     (world_inv T m0 F w0)"
proof (cases "target_arch b")
  case X86
  then show ?thesis by (simp add: AllocatePageNear_def hoare_Allocator_new)
next
  case X64
  have body: "hoare (world_inv T m0 F w0)
      (andThen (scan_forward (sint address) 0 e)
         (\<lambda>fwd. andThen (case fwd of Some tr \<Rightarrow> ret (Some tr)
                                   | None \<Rightarrow> scan_backward (sint address) 0 g)
            (\<lambda>trampoline. case trampoline of None \<Rightarrow> throw NoTrampolineBlock
                                            | Some tr \<Rightarrow> ret tr)))
      (\<lambda>tr w. world_inv T m0 F w0 w \<and> fresh_for T tr) (world_inv T m0 F w0)" for e g
  proof (rule hoare_andThen[OF hoare_scan_forward])
    fix fwd
    show "hoare (\<lambda>w. world_inv T m0 F w0 w \<and> (\<forall>tr. fwd = Some tr \<longrightarrow> fresh_for T tr))
            (andThen (case fwd of Some tr \<Rightarrow> ret (Some tr)
                                | None \<Rightarrow> scan_backward (sint address) 0 g)
               (\<lambda>trampoline. case trampoline of None \<Rightarrow> throw NoTrampolineBlock
                                               | Some tr \<Rightarrow> ret tr))
            (\<lambda>tr w. world_inv T m0 F w0 w \<and> fresh_for T tr) (world_inv T m0 F w0)"
    proof (rule hoare_andThen[where R = "\<lambda>r w. world_inv T m0 F w0 w \<and>
                                            (\<forall>tr. r = Some tr \<longrightarrow> fresh_for T tr)"])
      show "hoare (\<lambda>w. world_inv T m0 F w0 w \<and> (\<forall>tr. fwd = Some tr \<longrightarrow> fresh_for T tr))
              (case fwd of Some tr \<Rightarrow> ret (Some tr) | None \<Rightarrow> scan_backward (sint address) 0 g)
              (\<lambda>r w. world_inv T m0 F w0 w \<and> (\<forall>tr. r = Some tr \<longrightarrow> fresh_for T tr))
              (world_inv T m0 F w0)"
      proof (cases fwd)
        case None
        then show ?thesis
          using hoare_pre[OF hoare_scan_backward[of T m0 F w0 "sint address" 0 g]] by simp
      next
        case (Some tr)
        then show ?thesis by (simp add: hoare_def ret_def)
      qed
    next
      fix trampoline
      show "hoare (\<lambda>w. world_inv T m0 F w0 w \<and> (\<forall>tr. trampoline = Some tr \<longrightarrow> fresh_for T tr))
              (case trampoline of None \<Rightarrow> throw NoTrampolineBlock | Some tr \<Rightarrow> ret tr)
              (\<lambda>tr w. world_inv T m0 F w0 w \<and> fresh_for T tr) (world_inv T m0 F w0)"
        by (cases trampoline) (simp_all add: hoare_def ret_def throw_def)
    qed
  qed
  show ?thesis
    unfolding hoare_def
  proof (intro allI impI)
    fix w assume I: "world_inv T m0 F w0 w"
    from hoareD[OF body I]
    show "case AllocatePageNear b address w of
            (Ok tr, w') \<Rightarrow> world_inv T m0 F w0 w' \<and> fresh_for T tr
          | (Throw e, w') \<Rightarrow> world_inv T m0 F w0 w'
          | (Abort, w') \<Rightarrow> world_inv T m0 F w0 w'"
      using X64 by (simp add: AllocatePageNear_def Let_def)
  qed
qed

section \<open>The jump and call writers into a fresh page\<close>


lemma andThen_ret_fun: "andThen (ret x) f = f x"
  by (rule ext) (simp add: andThen_def ret_def)

lemma assert_True: "HADESMEM_DETAIL_ASSERT b True = ret ()"
  by (rule ext) (simp add: HADESMEM_DETAIL_ASSERT_def ret_def)

lemma gen_lengths:
  "length (GenJmp32 a t) = 5" "length (GenCall32 a t) = 5"
  "length (GenJmpTramp64 a t) = 6" "length (GenCallTramp64 a t) = 6"
  "length (GenPush32Ret t) = 6" "length (GenPush64Ret t) = 14"
  by (simp_all add: GenJmp32_def GenCall32_def GenJmpTramp64_def GenCallTramp64_def
      GenPush32Ret_def GenPush64Ret_def le32_def)

lemmas size_defs = kJmpSize32_def kCallSize32_def kJmpSize64_def kCallSize64_def
  kPushRetSize64_def kPushRetSize32_def

lemma state_inv_sys:
  assumes "hoare (world_inv T m0 F w0) m (\<lambda>x w. world_inv T m0 F w0 w \<and> G x)
             (world_inv T m0 F w0)"
  shows "hoare (state_inv T m0 F p0 w0) (sys m)
           (\<lambda>x s. state_inv T m0 F p0 w0 s \<and> G x) (state_inv T m0 F p0 w0)"
proof (rule hoare_sys)
  fix p
  show "hoare (\<lambda>w. state_inv T m0 F p0 w0 (p, w)) m
          (\<lambda>x w. state_inv T m0 F p0 w0 (p, w) \<and> G x) (\<lambda>w. state_inv T m0 F p0 w0 (p, w))"
    unfolding hoare_def
  proof (intro allI impI)
    fix w assume a: "state_inv T m0 F p0 w0 (p, w)"
    then have o: "obj_inv p0 p" and wi: "world_inv T m0 F w0 w" by (simp_all add: state_inv_def)
    obtain r w' where mw: "m w = (r, w')" by (cases "m w")
    from hoareD[OF assms wi] o
    show "case m w of
            (Ok x, w') \<Rightarrow> state_inv T m0 F p0 w0 (p, w') \<and> G x
          | (Throw e, w') \<Rightarrow> state_inv T m0 F p0 w0 (p, w')
          | (Abort, w') \<Rightarrow> state_inv T m0 F p0 w0 (p, w')"
      unfolding mw by (cases r) (simp_all add: state_inv_def)
  qed
qed

lemma state_inv_sys':
  assumes "hoare (world_inv T m0 F w0) m (\<lambda>x. world_inv T m0 F w0) (world_inv T m0 F w0)"
  shows "hoare (state_inv T m0 F p0 w0) (sys m)
           (\<lambda>x. state_inv T m0 F p0 w0) (state_inv T m0 F p0 w0)"
proof -
  have "hoare (world_inv T m0 F w0) m (\<lambda>x w. world_inv T m0 F w0 w \<and> True)
             (world_inv T m0 F w0)"
    using assms by simp
  from state_inv_sys[OF this] show ?thesis by simp
qed

lemma state_inv_release:
  "fresh_for T tr \<Longrightarrow> state_inv T m0 F p0 w0 s \<Longrightarrow> state_inv T m0 F p0 w0 (release_local tr s)"
  by (simp add: state_inv_def release_local_def world_inv_free)

lemma hoare_keep_island:
  "hoare (state_inv T m0 F p0 w0) (keep_island tr)
     (\<lambda>x. state_inv T m0 F p0 w0) (state_inv T m0 F p0 w0)"
  by (simp add: hoare_def keep_island_def set_self_def state_inv_def obj_inv_def)

lemma hoare_island_write:
  assumes "fresh_for T tr"
  shows "hoare (state_inv T m0 F p0 w0)
           (on_unwind (release_local tr) (sys (WritePointer b (alloc_base tr) v)))
           (\<lambda>x. state_inv T m0 F p0 w0) (state_inv T m0 F p0 w0)"
proof (rule hoare_on_unwind)
  show "hoare (state_inv T m0 F p0 w0) (sys (WritePointer b (alloc_base tr) v))
          (\<lambda>x. state_inv T m0 F p0 w0)
          (\<lambda>s. state_inv T m0 F p0 w0 s \<and> state_inv T m0 F p0 w0 (release_local tr s))"
    by (rule hoare_weaken[OF state_inv_sys'[OF hoare_WritePointer_fresh[OF assms]]])
       (auto intro: state_inv_release[OF assms])
qed

lemma hoare_island:
  assumes "fresh_for T tr" "length buf \<le> 14"
  shows "hoare (state_inv T m0 F p0 w0)
           (andThen (on_unwind (release_local tr) (sys (WritePointer b (alloc_base tr) v)))
              (\<lambda>_. andThen (keep_island tr) (\<lambda>_. andThen (HADESMEM_DETAIL_ASSERT b c) (\<lambda>_. ret buf))))
           (\<lambda>x s. state_inv T m0 F p0 w0 s \<and> length x \<le> 14) (state_inv T m0 F p0 w0)"
  apply (rule hoare_andThen[OF hoare_island_write[OF assms(1)]])
  apply (rule hoare_andThen[OF hoare_keep_island])
  apply (rule hoare_andThen[where R = "\<lambda>x. state_inv T m0 F p0 w0"])
   apply (simp add: hoare_def HADESMEM_DETAIL_ASSERT_def)
  apply (simp add: hoare_def ret_def assms(2))
  done

lemma hoare_page_near:
  "hoare (state_inv T m0 F p0 w0) (sys (AllocatePageNear b address))
     (\<lambda>tr s. state_inv T m0 F p0 w0 s \<and> fresh_for T tr) (state_inv T m0 F p0 w0)"
  by (rule state_inv_sys[OF hoare_AllocatePageNear])

lemma hoare_jump_bytes:
  "hoare (state_inv T m0 F p0 w0) (jump_bytes b address target fb)
     (\<lambda>buf s. state_inv T m0 F p0 w0 s \<and> length buf \<le> 14) (state_inv T m0 F p0 w0)"
proof (cases "target_arch b = X64 \<and> \<not> IsNear b address target")
  case False
  then have "jump_bytes b address target fb = ret (GenJmp32 address target)"
    by (cases "target_arch b")
       (simp_all add: jump_bytes_def gen_lengths size_defs assert_True andThen_ret_fun)
  then show ?thesis by (simp add: hoare_def ret_def gen_lengths)
next
  case True
  let ?J = "state_inv T m0 F p0 w0"
  let ?k = "\<lambda>trampoline.
              case trampoline of
                Some tr \<Rightarrow>
                  andThen (on_unwind (release_local tr)
                             (sys (WritePointer b (alloc_base tr) target))) (\<lambda>_.
                  andThen (keep_island tr) (\<lambda>_.
                  andThen (HADESMEM_DETAIL_ASSERT b
                             (length (GenJmpTramp64 address (alloc_base tr)) = kJmpSize64 b)) (\<lambda>_.
                  ret (GenJmpTramp64 address (alloc_base tr)))))
              | None \<Rightarrow>
                  if \<not> fb then throw UnreachableTarget
                  else if ucast (drop_bit 32 target AND 0xFFFFFFFF) \<noteq> (0 :: 32 word) then
                    andThen (HADESMEM_DETAIL_ASSERT b
                               (length (GenPush64Ret target) = kPushRetSize64)) (\<lambda>_.
                    ret (GenPush64Ret target))
                  else
                    andThen (HADESMEM_DETAIL_ASSERT b
                               (length (GenPush32Ret target) = kPushRetSize32)) (\<lambda>_.
                    ret (GenPush32Ret target))"
  have eq: "jump_bytes b address target fb =
              andThen (catch_exception (sys (AllocatePageNear b address))) ?k"
    using True by (simp add: jump_bytes_def)
  have first: "hoare ?J (catch_exception (sys (AllocatePageNear b address)))
                 (\<lambda>r s. ?J s \<and> (\<forall>tr. r = Some tr \<longrightarrow> fresh_for T tr)) ?J"
    by (rule hoare_catch) (rule hoare_weaken[OF hoare_page_near], simp_all)
  have rest: "hoare (\<lambda>s. ?J s \<and> (\<forall>tr. r = Some tr \<longrightarrow> fresh_for T tr)) (?k r)
                (\<lambda>buf s. ?J s \<and> length buf \<le> 14) ?J" for r
  proof (cases r)
    case None
    then show ?thesis
      by (simp add: hoare_def throw_def ret_def gen_lengths size_defs assert_True andThen_ret_fun)
  next
    case (Some tr)
    have "hoare (\<lambda>s. ?J s \<and> fresh_for T tr) (?k (Some tr))
            (\<lambda>buf s. ?J s \<and> length buf \<le> 14) ?J"
      by (rule hoare_gen) (simp add: hoare_island gen_lengths)
    then show ?thesis using Some by simp
  qed
  show ?thesis unfolding eq by (rule hoare_andThen[OF first rest])
qed

lemma hoare_call_bytes:
  "hoare (state_inv T m0 F p0 w0) (call_bytes b address target)
     (\<lambda>buf s. state_inv T m0 F p0 w0 s \<and> length buf \<le> 14) (state_inv T m0 F p0 w0)"
proof (cases "target_arch b")
  case X86
  then have "call_bytes b address target = ret (GenCall32 address target)"
    by (simp add: call_bytes_def gen_lengths size_defs assert_True andThen_ret_fun)
  then show ?thesis by (simp add: hoare_def ret_def gen_lengths)
next
  case X64
  let ?J = "state_inv T m0 F p0 w0"
  have rest: "hoare (\<lambda>s. ?J s \<and> fresh_for T tr)
     (andThen (on_unwind (release_local tr) (sys (WritePointer b (alloc_base tr) target))) (\<lambda>_.
          andThen (keep_island tr) (\<lambda>_.
          andThen (HADESMEM_DETAIL_ASSERT b
                     (length (GenCallTramp64 address (alloc_base tr)) = kCallSize64 b)) (\<lambda>_.
          ret (GenCallTramp64 address (alloc_base tr))))))
     (\<lambda>buf s. ?J s \<and> length buf \<le> 14) ?J" for tr
    by (rule hoare_gen) (simp add: hoare_island gen_lengths)
  show ?thesis
    using X64 by (simp add: call_bytes_def) (rule hoare_andThen[OF hoare_page_near rest])
qed

lemma hoare_write_code:
  assumes "fresh_for T tr" "off + 14 \<le> 4096"
    and "hoare (state_inv T m0 F p0 w0) m
           (\<lambda>buf s. state_inv T m0 F p0 w0 s \<and> length buf \<le> 14) (state_inv T m0 F p0 w0)"
  shows "hoare (state_inv T m0 F p0 w0)
           (andThen m (\<lambda>buf. andThen (sys (WriteVector (alloc_base tr + of_nat off) buf))
                                (\<lambda>_. ret (length buf))))
           (\<lambda>n s. state_inv T m0 F p0 w0 s \<and> n \<le> 14) (state_inv T m0 F p0 w0)"
proof (rule hoare_andThen[OF assms(3)])
  fix buf
  show "hoare (\<lambda>s. state_inv T m0 F p0 w0 s \<and> length buf \<le> 14)
          (andThen (sys (WriteVector (alloc_base tr + of_nat off) buf)) (\<lambda>_. ret (length buf)))
          (\<lambda>n s. state_inv T m0 F p0 w0 s \<and> n \<le> 14) (state_inv T m0 F p0 w0)"
  proof (rule hoare_gen)
    assume l: "length buf \<le> 14"
    then have "off + length buf \<le> 4096" using assms(2) by simp
    from state_inv_sys'[OF hoare_WriteVector_fresh[OF assms(1) this]]
    show "hoare (state_inv T m0 F p0 w0)
            (andThen (sys (WriteVector (alloc_base tr + of_nat off) buf)) (\<lambda>_. ret (length buf)))
            (\<lambda>n s. state_inv T m0 F p0 w0 s \<and> n \<le> 14) (state_inv T m0 F p0 w0)"
      by (rule hoare_andThen) (simp add: hoare_def ret_def l)
  qed
qed

lemma hoare_WriteJump:
  assumes "fresh_for T tr" "off + 14 \<le> 4096"
  shows "hoare (state_inv T m0 F p0 w0) (WriteJump b (alloc_base tr + of_nat off) target fb)
           (\<lambda>n s. state_inv T m0 F p0 w0 s \<and> n \<le> 14) (state_inv T m0 F p0 w0)"
  unfolding WriteJump_def by (rule hoare_write_code[OF assms hoare_jump_bytes])

lemma hoare_WriteCall:
  assumes "fresh_for T tr" "off + 14 \<le> 4096"
  shows "hoare (state_inv T m0 F p0 w0) (WriteCall b (alloc_base tr + of_nat off) target)
           (\<lambda>n s. state_inv T m0 F p0 w0 s \<and> n \<le> 14) (state_inv T m0 F p0 w0)"
  unfolding WriteCall_def by (rule hoare_write_code[OF assms hoare_call_bytes])

section \<open>Relocation of the prologue\<close>


lemma hoare_sys_ReadVector:
  "hoare P (sys (ReadVector a n)) (\<lambda>xs s. P s \<and> xs = map (mem (snd s)) (addr_range a n)) P"
  by (simp add: hoare_def sys_def ReadVector_def)

lemma hoare_sys_ReadPointer: "hoare P (sys (ReadPointer b a)) (\<lambda>x. P) P"
  by (rule hoare_sys) (rule hoare_ReadPointer)

lemma hoare_relocate_branch:
  assumes "fresh_for T tr" "off + 14 \<le> 4096"
  shows "hoare (state_inv T m0 F p0 w0)
           (relocate_branch b insn x insn_base (alloc_base tr + of_nat off))
           (\<lambda>tc s. state_inv T m0 F p0 w0 s \<and> (\<exists>k\<le>14. tc = alloc_base tr + of_nat (off + k)))
           (state_inv T m0 F p0 w0)"
proof -
  let ?J = "state_inv T m0 F p0 w0"
  let ?Q = "\<lambda>tc s. ?J s \<and> (\<exists>k\<le>14. tc = alloc_base tr + of_nat (off + k))"
  have fin: "hoare (\<lambda>s. ?J s \<and> n \<le> 14) (ret (alloc_base tr + of_nat off + of_nat n)) ?Q ?J" for n
    by (auto simp: hoare_def ret_def add.assoc)
  have jmp: "hoare ?J (andThen (WriteJump b (alloc_base tr + of_nat off) jt True)
                 (\<lambda>n. ret (alloc_base tr + of_nat off + of_nat n))) ?Q ?J" for jt
    by (rule hoare_andThen[OF hoare_WriteJump[OF assms] fin])
  have call: "hoare ?J (andThen (HADESMEM_DETAIL_ASSERT b c)
                 (\<lambda>_. andThen (WriteCall b (alloc_base tr + of_nat off) jt)
                 (\<lambda>n. ret (alloc_base tr + of_nat off + of_nat n)))) ?Q ?J" for jt c
  proof (rule hoare_andThen[where R = "\<lambda>x. ?J"])
    show "hoare ?J (HADESMEM_DETAIL_ASSERT b c) (\<lambda>x. ?J) ?J"
      by (simp add: hoare_def HADESMEM_DETAIL_ASSERT_def)
    show "hoare ?J (andThen (WriteCall b (alloc_base tr + of_nat off) jt)
            (\<lambda>n. ret (alloc_base tr + of_nat off + of_nat n))) ?Q ?J" for u :: unit
      by (rule hoare_andThen[OF hoare_WriteCall[OF assms] fin])
  qed
  have first: "hoare ?J (case v of Some t \<Rightarrow> ret t
                 | None \<Rightarrow> andThen (HADESMEM_DETAIL_ASSERT b False) (\<lambda>_. throw UnknownInsnSize))
                 (\<lambda>x. ?J) ?J" for v :: "64 word option"
    by (cases v) (simp_all add: hoare_def ret_def andThen_def HADESMEM_DETAIL_ASSERT_def throw_def)
  have second: "hoare ?J (if c then ret a else sys (ReadPointer b a')) (\<lambda>x. ?J) ?J" for c a a'
    by (cases c) (simp_all add: hoare_sys_ReadPointer, simp add: hoare_def ret_def)
  show ?thesis
    unfolding relocate_branch_def
    apply (rule hoare_andThen[OF first])
    apply (rule hoare_andThen[OF second])
    apply (rule hoare_if)
     apply (rule jmp)
    apply (rule call)
    done
qed

lemma hoare_copy_insn:
  assumes "fresh_for T tr" "off + length raw \<le> 4096"
  shows "hoare (state_inv T m0 F p0 w0) (copy_insn raw insn (alloc_base tr + of_nat off))
           (\<lambda>tc s. state_inv T m0 F p0 w0 s \<and>
                    tc = alloc_base tr + of_nat (off + insn_len insn))
           (state_inv T m0 F p0 w0)"
  unfolding copy_insn_def
  by (rule hoare_andThen[OF state_inv_sys'[OF hoare_WriteVector_fresh[OF assms]]])
     (simp add: hoare_def ret_def add.assoc)

lemma hoare_relocate_insn:
  assumes "fresh_for T tr" "off + 14 \<le> 4096" "off + length raw \<le> 4096"
  shows "hoare (state_inv T m0 F p0 w0)
           (relocate_insn b raw insn insn_base (alloc_base tr + of_nat off))
           (\<lambda>tc s. state_inv T m0 F p0 w0 s \<and>
                    (\<exists>k\<le>max 14 (insn_len insn). tc = alloc_base tr + of_nat (off + k)))
           (state_inv T m0 F p0 w0)"
proof -
  have c: "hoare (state_inv T m0 F p0 w0) (copy_insn raw insn (alloc_base tr + of_nat off))
           (\<lambda>tc s. state_inv T m0 F p0 w0 s \<and>
                    (\<exists>k\<le>max 14 (insn_len insn). tc = alloc_base tr + of_nat (off + k)))
           (state_inv T m0 F p0 w0)"
  proof (rule hoare_weaken[OF hoare_copy_insn[OF assms(1,3)]])
    fix tc s
    assume a: "state_inv T m0 F p0 w0 s \<and> tc = alloc_base tr + of_nat (off + insn_len insn)"
    have "insn_len insn \<le> max 14 (insn_len insn)" by simp
    with a show "state_inv T m0 F p0 w0 s \<and>
                 (\<exists>k\<le>max 14 (insn_len insn). tc = alloc_base tr + of_nat (off + k))"
      by blast
  qed simp
  have r: "hoare (state_inv T m0 F p0 w0)
           (relocate_branch b insn x insn_base (alloc_base tr + of_nat off))
           (\<lambda>tc s. state_inv T m0 F p0 w0 s \<and>
                    (\<exists>k\<le>max 14 (insn_len insn). tc = alloc_base tr + of_nat (off + k)))
           (state_inv T m0 F p0 w0)" for x
  proof (rule hoare_weaken[OF hoare_relocate_branch[OF assms(1,2)]])
    fix tc s
    assume "state_inv T m0 F p0 w0 s \<and> (\<exists>k\<le>14. tc = alloc_base tr + of_nat (off + k))"
    then obtain k where k: "k \<le> 14" "tc = alloc_base tr + of_nat (off + k)"
      and J: "state_inv T m0 F p0 w0 s" by blast
    from k(1) have "k \<le> max 14 (insn_len insn)" by simp
    with k(2) J show "state_inv T m0 F p0 w0 s \<and>
                 (\<exists>k\<le>max 14 (insn_len insn). tc = alloc_base tr + of_nat (off + k))"
      by blast
  qed simp
  show ?thesis
  proof (cases "insn_opr0 insn")
    case None
    then have "relocate_insn b raw insn insn_base (alloc_base tr + of_nat off)
               = copy_insn raw insn (alloc_base tr + of_nat off)"
      by (simp add: relocate_insn_def)
    then show ?thesis using c by (simp only:)
  next
    case (Some x)
    then have "relocate_insn b raw insn insn_base (alloc_base tr + of_nat off)
               = relocate_branch b insn x insn_base (alloc_base tr + of_nat off) \<or>
               relocate_insn b raw insn insn_base (alloc_base tr + of_nat off)
               = copy_insn raw insn (alloc_base tr + of_nat off)"
      by (simp add: relocate_insn_def)
    then show ?thesis using c r[of x] by (elim disjE) (simp_all only:)
  qed
qed

lemma relocate_loop_inv:
  assumes "fresh_for T tr"
  shows "decoder_ok dec \<Longrightarrow> length buffer \<le> 45 \<Longrightarrow>
         state_inv T m0 F p0 w0 s \<Longrightarrow> off \<le> 14 * instr_size \<Longrightarrow> instr_size \<le> length buffer \<Longrightarrow>
         tramp_cur = alloc_base tr + of_nat off \<Longrightarrow>
         (case relocate_loop b dec buffer target patch_size tramp_cur instr_size s of
            (Ok r, s') \<Rightarrow> state_inv T m0 F p0 w0 s' \<and> snd r \<le> length buffer \<and>
                          (\<exists>k\<le>14 * snd r. fst r = alloc_base tr + of_nat k)
          | (Throw e, s') \<Rightarrow> state_inv T m0 F p0 w0 s'
          | (Abort, s') \<Rightarrow> state_inv T m0 F p0 w0 s')"
proof (induction b dec buffer target patch_size tramp_cur instr_size s arbitrary: off
       rule: relocate_loop.induct)
  case (1 b dec buffer target patch_size tramp_cur instr_size s)
  let ?insn = "dec (drop instr_size buffer)"
  let ?len = "insn_len ?insn"
  let ?raw = "take ?len (drop instr_size buffer)"
  note dok = "1.prems"(1) and b45 = "1.prems"(2) and J0 = "1.prems"(3)
    and offle = "1.prems"(4) and isz = "1.prems"(5) and tc0 = "1.prems"(6)
  show ?case
  proof (cases "?len = 0")
    case True
    then show ?thesis using J0 by (subst relocate_loop.simps) simp
  next
    case False
    have len: "?len \<le> length buffer - instr_size"
    proof -
      have "insn_len (dec (drop instr_size buffer)) \<le> length (drop instr_size buffer)"
        using dok unfolding decoder_ok_def by blast
      then show ?thesis by simp
    qed
    have bounds: "off + 14 \<le> 4096" "off + length ?raw \<le> 4096"
      using offle isz len b45 by simp_all
    obtain r s' where st: "relocate_insn b ?raw ?insn (target + of_nat instr_size) tramp_cur s
                             = (r, s')"
      by (cases "relocate_insn b ?raw ?insn (target + of_nat instr_size) tramp_cur s")
    have post: "case r of
                  Ok tc \<Rightarrow> state_inv T m0 F p0 w0 s' \<and>
                           (\<exists>k\<le>max 14 ?len. tc = alloc_base tr + of_nat (off + k))
                | Throw e \<Rightarrow> state_inv T m0 F p0 w0 s'
                | Abort \<Rightarrow> state_inv T m0 F p0 w0 s'"
      using hoareD[OF hoare_relocate_insn[where b = b and insn = ?insn
                     and insn_base = "target + of_nat instr_size", OF assms bounds] J0] st
      unfolding tc0 by simp
    show ?thesis
    proof (cases r)
      case (Ok tc)
      from post Ok obtain k where k: "k \<le> max 14 ?len" "tc = alloc_base tr + of_nat (off + k)"
        and J: "state_inv T m0 F p0 w0 s'" by auto
      have off': "off + k \<le> 14 * (instr_size + ?len)" using k(1) offle False by simp
      have le': "instr_size + ?len \<le> length buffer" using len isz by simp
      show ?thesis
      proof (cases "instr_size + ?len < patch_size")
        case True
        have eq: "relocate_loop b dec buffer target patch_size tramp_cur instr_size s =
                  relocate_loop b dec buffer target patch_size tc (instr_size + ?len) s'"
          using False st Ok True by (subst relocate_loop.simps) simp
        from "1.IH"[OF False st[symmetric] Ok True dok b45 J off' le' k(2)]
        show ?thesis unfolding eq .
      next
        case nl: False
        have eq: "relocate_loop b dec buffer target patch_size tramp_cur instr_size s =
                  (Ok (tc, instr_size + ?len), s')"
          using False st Ok nl by (subst relocate_loop.simps) simp
        have "\<exists>ka\<le>14 * (instr_size + ?len). tc = alloc_base tr + of_nat ka"
          using off' k(2) by blast
        then show ?thesis unfolding eq using J le' by simp
      qed
    next
      case (Throw e)
      then show ?thesis using post False st by (subst relocate_loop.simps) simp
    next
      case Abort
      then show ?thesis using post False st by (subst relocate_loop.simps) simp
    qed
  qed
qed


section \<open>When the allocator has nothing to give\<close>

lemma allocate_tramp_none:
  "\<not> grantable w (page_of a) \<Longrightarrow> allocate_tramp a n w = (Ok None, w)"
  by (simp add: allocate_tramp_def TryAlloc_def andThen_def ret_def)

lemma scan_forward_none:
  "(\<And>pg. \<not> grantable w pg) \<Longrightarrow> scan_forward base index search_end w = (Ok None, w)"
proof (induction base index search_end w rule: scan_forward.induct)
  case (1 base index search_end w)
  show ?case
  proof (cases "base + index < search_end")
    case True
    have a: "allocate_tramp (word_of_int (base + index)) page_size w = (Ok None, w)"
      by (rule allocate_tramp_none) (rule "1.prems")
    have "scan_forward base (index + int page_size) search_end w = (Ok None, w)"
      by (rule "1.IH"[OF True a[symmetric] refl refl "1.prems"])
    then show ?thesis using True a by (subst scan_forward.simps) simp
  next
    case False
    then show ?thesis by (subst scan_forward.simps) simp
  qed
qed

lemma scan_backward_none:
  "(\<And>pg. \<not> grantable w pg) \<Longrightarrow> scan_backward base index search_beg w = (Ok None, w)"
proof (induction base index search_beg w rule: scan_backward.induct)
  case (1 base index search_beg w)
  show ?case
  proof (cases "base - index > search_beg")
    case True
    have a: "allocate_tramp (word_of_int (base - index)) page_size w = (Ok None, w)"
      by (rule allocate_tramp_none) (rule "1.prems")
    have "scan_backward base (index + int page_size) search_beg w = (Ok None, w)"
      by (rule "1.IH"[OF True a[symmetric] refl refl "1.prems"])
    then show ?thesis using True a by (subst scan_backward.simps) simp
  next
    case False
    then show ?thesis by (subst scan_backward.simps) simp
  qed
qed

lemma AllocatePageNear_none:
  assumes "target_arch b = X64" "\<And>pg. \<not> grantable w pg"
  shows "AllocatePageNear b a w = (Throw NoTrampolineBlock, w)"
  using assms(1)
  by (simp add: AllocatePageNear_def Let_def andThen_def throw_def
      scan_forward_none[OF assms(2)] scan_backward_none[OF assms(2)])

lemma jump_bytes_no_page:
  assumes "target_arch b = X64" "\<not> IsNear b a t" "\<And>pg. \<not> grantable w pg"
  shows "jump_bytes b a t True (p, w) =
           (Ok (if ucast (drop_bit 32 t AND 0xFFFFFFFF) \<noteq> (0 :: 32 word)
                then GenPush64Ret t else GenPush32Ret t), (p, w))"
    and "jump_bytes b a t False (p, w) = (Throw UnreachableTarget, (p, w))"
  using assms(1,2)
  by (simp_all add: jump_bytes_def andThen_def catch_exception_def sys_def
      AllocatePageNear_none[OF assms(1,3)] throw_def ret_def HADESMEM_DETAIL_ASSERT_def
      gen_lengths size_defs)


section \<open>Building the trampoline\<close>

lemma store_map:
  "store m a (map m0 (addr_range a n)) x = (if x \<in> set (addr_range a n) then m0 x else m x)"
proof (induction n arbitrary: m a)
  case 0
  then show ?case by simp
next
  case (Suc n)
  show ?case by (simp add: Suc.IH)
qed

lemma keeps_free_page:
  "keeps T m0 w \<Longrightarrow> page_of (alloc_base tr) \<notin> page_of ` T \<Longrightarrow> keeps T m0 (Allocator_free tr w)"
proof -
  assume k: "keeps T m0 w" and n: "page_of (alloc_base tr) \<notin> page_of ` T"
  have "page_of a \<noteq> page_of (alloc_base tr)" if "a \<in> T" for a
    using that n by (metis imageI)
  then show ?thesis using k by (simp add: keeps_def Allocator_free_def)
qed

lemma free_all_frame:
  "freed (free_all ts w) = freed w @ ts"
  "threads (free_all ts w) = threads w"
  "current_tid (free_all ts w) = current_tid w"
  "mem (free_all ts w) = mem w"
  by (induction ts arbitrary: w) (simp_all add: Allocator_free_def)

lemma keeps_free_all:
  "keeps T m0 w \<Longrightarrow> \<forall>a\<in>set ts. page_of (alloc_base a) \<notin> page_of ` T \<Longrightarrow>
   keeps T m0 (free_all ts w)"
  by (induction ts arbitrary: w) (simp_all add: keeps_free_page)

lemma reset_trampolines_inv:
  assumes "keeps T (mem w) w" "\<forall>a\<in>set (owned p). page_of (alloc_base a) \<notin> page_of ` T"
  shows "fst (reset_trampolines (p, w)) = Ok ()"
    and "state_inv T (mem w) (freed w @ owned p) p w (snd (reset_trampolines (p, w)))"
proof -
  show "fst (reset_trampolines (p, w)) = Ok ()" by (simp add: reset_trampolines_def)
  show "state_inv T (mem w) (freed w @ owned p) p w (snd (reset_trampolines (p, w)))"
  proof (cases "det_trampoline p")
    case None
    have k2: "keeps T (mem w) (free_all (det_trampolines p) w)"
      using assms(2) None by (intro keeps_free_all assms(1)) (simp add: owned_def)
    show ?thesis
      using k2 None
      by (simp add: reset_trampolines_def state_inv_def obj_inv_def world_inv_def
          free_all_frame owned_def)
  next
    case (Some tr)
    have k1: "keeps T (mem w) (Allocator_free tr w)"
      using assms Some by (simp add: owned_def keeps_free_page)
    have k2: "keeps T (mem w) (free_all (det_trampolines p) (Allocator_free tr w))"
      using assms(2) Some by (intro keeps_free_all k1) (simp add: owned_def)
    show ?thesis
      using k2 Some
      by (simp add: reset_trampolines_def state_inv_def obj_inv_def world_inv_def
          free_all_frame owned_def Allocator_free_def)
  qed
qed

lemma GetPatchSize_obj:
  "obj_inv p0 p \<Longrightarrow> GetPatchSize b (p, w) = (fst (GetPatchSize b (p0, w0)), (p, w))"
  by (cases "dyn_type p0")
     (simp_all add: GetPatchSize_def andThen_def self_def ret_def throw_def obj_inv_def)

lemma GetPatchSize_le: "fst (GetPatchSize b (p, w)) = Ok k \<Longrightarrow> 0 < k \<and> k \<le> 6"
  by (cases "dyn_type p"; cases "target_arch b")
     (auto simp: GetPatchSize_def andThen_def self_def ret_def throw_def size_defs
           split: if_splits)

lemma hoare_GetPatchSize:
  "hoare (state_inv T m0 F p0 w0) (GetPatchSize b)
     (\<lambda>n s. state_inv T m0 F p0 w0 s \<and> fst (GetPatchSize b (p0, w0)) = Ok n)
     (state_inv T m0 F p0 w0)"
  unfolding hoare_def
proof (intro allI impI)
  fix s :: "detour_obj \<times> world"
  assume J: "state_inv T m0 F p0 w0 s"
  then have o: "obj_inv p0 (fst s)" by (simp add: state_inv_def)
  have "GetPatchSize b s = (fst (GetPatchSize b (p0, w0)), s)"
    using GetPatchSize_obj[OF o, of b "snd s" w0] by simp
  then show "case GetPatchSize b s of
               (Ok n, s') \<Rightarrow> state_inv T m0 F p0 w0 s' \<and> fst (GetPatchSize b (p0, w0)) = Ok n
             | (Throw e, s') \<Rightarrow> state_inv T m0 F p0 w0 s'
             | (Abort, s') \<Rightarrow> state_inv T m0 F p0 w0 s'"
    using J by (cases "fst (GetPatchSize b (p0, w0))") simp_all
qed

lemma hoare_relocate_loop:
  assumes "decoder_ok dec" "fresh_for T tr" "length buffer = 45"
  shows "hoare (state_inv T m0 F p0 w0)
           (relocate_loop b dec buffer target patch_size (alloc_base tr) 0)
           (\<lambda>r s. state_inv T m0 F p0 w0 s \<and> (\<exists>k\<le>630. fst r = alloc_base tr + of_nat k))
           (state_inv T m0 F p0 w0)"
  unfolding hoare_def
proof (intro allI impI)
  fix s assume J: "state_inv T m0 F p0 w0 s"
  have l: "length buffer \<le> 45" using assms(3) by simp
  have t: "alloc_base tr = alloc_base tr + of_nat 0" by simp
  have z: "(0::nat) \<le> 14 * 0" "(0::nat) \<le> length buffer" by simp_all
  note inv = relocate_loop_inv[OF assms(2) assms(1) l J z t, of b target patch_size]
  obtain r s' where rs: "relocate_loop b dec buffer target patch_size (alloc_base tr) 0 s = (r, s')"
    by (cases "relocate_loop b dec buffer target patch_size (alloc_base tr) 0 s")
  show "case relocate_loop b dec buffer target patch_size (alloc_base tr) 0 s of
          (Ok r, s') \<Rightarrow> state_inv T m0 F p0 w0 s' \<and> (\<exists>k\<le>630. fst r = alloc_base tr + of_nat k)
        | (Throw e, s') \<Rightarrow> state_inv T m0 F p0 w0 s'
        | (Abort, s') \<Rightarrow> state_inv T m0 F p0 w0 s'"
  proof (cases r)
    case (Ok x)
    with inv rs obtain k where k: "k \<le> 14 * snd x" "fst x = alloc_base tr + of_nat k"
      and J': "state_inv T m0 F p0 w0 s'" and sx: "snd x \<le> length buffer" by auto
    have "k \<le> 630" using k(1) sx assms(3) by simp
    then show ?thesis using rs Ok J' k(2) by auto
  next
    case (Throw e)
    then show ?thesis using inv rs by simp
  next
    case Abort
    then show ?thesis using inv rs by simp
  qed
qed

lemma hoare_build_rest:
  assumes dok: "decoder_ok dec" and fr: "fresh_for T tr"
  shows "hoare (state_inv T m0 F p0 w0)
     (andThen (set_self (\<lambda>p. p\<lparr>det_trampoline := Some tr\<rparr>)) (\<lambda>_.
      andThen (sys (ReadVector target kTrampSize)) (\<lambda>buffer.
      andThen (GetPatchSize b) (\<lambda>patch_size.
      andThen (relocate_loop b dec buffer target patch_size (alloc_base tr) 0) (\<lambda>r.
      andThen (WriteJump b (fst r) (target + of_nat (snd r)) True) (\<lambda>_.
      andThen (sys (ReadVector target patch_size)) (\<lambda>orig.
      andThen (set_self (\<lambda>p. p\<lparr>det_orig := orig\<rparr>)) (\<lambda>_.
      ret (snd r)))))))))
     (\<lambda>n s. state_inv T m0 F p0 w0 s \<and>
             (\<exists>k. fst (GetPatchSize b (p0, w0)) = Ok k \<and>
                  det_orig (fst s) = map (mem (snd s)) (addr_range target k)))
     (state_inv T m0 F p0 w0)"
proof -
  let ?J = "state_inv T m0 F p0 w0"
  let ?Q = "\<lambda>n s. ?J s \<and> (\<exists>k. fst (GetPatchSize b (p0, w0)) = Ok k \<and>
                  det_orig (fst s) = map (mem (snd s)) (addr_range target k))"
  have s7: "hoare (\<lambda>s. ?J s \<and> orig = map (mem (snd s)) (addr_range target n)
                       \<and> fst (GetPatchSize b (p0, w0)) = Ok n)
              (andThen (set_self (\<lambda>p. p\<lparr>det_orig := orig\<rparr>)) (\<lambda>_. ret x)) ?Q ?J" for orig n x
    by (auto simp: hoare_def andThen_def set_self_def ret_def state_inv_def obj_inv_def)
  have s6: "hoare (\<lambda>s. ?J s \<and> fst (GetPatchSize b (p0, w0)) = Ok n)
              (andThen (sys (ReadVector target n)) (\<lambda>orig.
               andThen (set_self (\<lambda>p. p\<lparr>det_orig := orig\<rparr>)) (\<lambda>_. ret x))) ?Q ?J" for n x
  proof -
    have rv: "hoare (\<lambda>s. ?J s \<and> fst (GetPatchSize b (p0, w0)) = Ok n)
                (sys (ReadVector target n))
                (\<lambda>orig s. ?J s \<and> orig = map (mem (snd s)) (addr_range target n)
                       \<and> fst (GetPatchSize b (p0, w0)) = Ok n) ?J"
      by (rule hoare_weaken[OF hoare_sys_ReadVector
            [where P = "\<lambda>s. ?J s \<and> fst (GetPatchSize b (p0, w0)) = Ok n"]]) auto
    show ?thesis by (rule hoare_andThen[OF rv s7])
  qed
  have s5: "hoare (\<lambda>s. ?J s \<and> (fst (GetPatchSize b (p0, w0)) = Ok n \<and>
                              (\<exists>k\<le>630. fst r = alloc_base tr + of_nat k)))
              (andThen (WriteJump b (fst r) (target + of_nat (snd r)) True) (\<lambda>_.
               andThen (sys (ReadVector target n)) (\<lambda>orig.
               andThen (set_self (\<lambda>p. p\<lparr>det_orig := orig\<rparr>)) (\<lambda>_. ret (snd r))))) ?Q ?J"
    for n and r :: "addr \<times> nat"
  proof (rule hoare_gen)
    assume a: "fst (GetPatchSize b (p0, w0)) = Ok n \<and> (\<exists>k\<le>630. fst r = alloc_base tr + of_nat k)"
    then obtain k where k: "k \<le> 630" "fst r = alloc_base tr + of_nat k" by blast
    have b14: "k + 14 \<le> 4096" using k(1) by simp
    have w: "hoare ?J (WriteJump b (fst r) (target + of_nat (snd r)) True)
               (\<lambda>_ s. ?J s \<and> fst (GetPatchSize b (p0, w0)) = Ok n) ?J"
      unfolding k(2)
      by (rule hoare_weaken[OF hoare_WriteJump[OF fr b14]]) (simp_all add: a)
    show "hoare ?J
            (andThen (WriteJump b (fst r) (target + of_nat (snd r)) True) (\<lambda>_.
             andThen (sys (ReadVector target n)) (\<lambda>orig.
             andThen (set_self (\<lambda>p. p\<lparr>det_orig := orig\<rparr>)) (\<lambda>_. ret (snd r))))) ?Q ?J"
      by (rule hoare_andThen[OF w s6])
  qed
  have s4: "hoare (\<lambda>s. ?J s \<and> (fst (GetPatchSize b (p0, w0)) = Ok n \<and> length buffer = 45))
              (andThen (relocate_loop b dec buffer target n (alloc_base tr) 0) (\<lambda>r.
               andThen (WriteJump b (fst r) (target + of_nat (snd r)) True) (\<lambda>_.
               andThen (sys (ReadVector target n)) (\<lambda>orig.
               andThen (set_self (\<lambda>p. p\<lparr>det_orig := orig\<rparr>)) (\<lambda>_. ret (snd r)))))) ?Q ?J"
    for n buffer
  proof (rule hoare_gen)
    assume a: "fst (GetPatchSize b (p0, w0)) = Ok n \<and> length buffer = 45"
    have l: "hoare ?J (relocate_loop b dec buffer target n (alloc_base tr) 0)
               (\<lambda>r s. ?J s \<and> (fst (GetPatchSize b (p0, w0)) = Ok n \<and>
                              (\<exists>k\<le>630. fst r = alloc_base tr + of_nat k))) ?J"
      by (rule hoare_weaken[OF hoare_relocate_loop[OF dok fr]]) (simp_all add: a)
    show "hoare ?J
            (andThen (relocate_loop b dec buffer target n (alloc_base tr) 0) (\<lambda>r.
             andThen (WriteJump b (fst r) (target + of_nat (snd r)) True) (\<lambda>_.
             andThen (sys (ReadVector target n)) (\<lambda>orig.
             andThen (set_self (\<lambda>p. p\<lparr>det_orig := orig\<rparr>)) (\<lambda>_. ret (snd r)))))) ?Q ?J"
      by (rule hoare_andThen[OF l s5])
  qed
  have s3: "hoare (\<lambda>s. ?J s \<and> length buffer = 45)
              (andThen (GetPatchSize b) (\<lambda>patch_size.
               andThen (relocate_loop b dec buffer target patch_size (alloc_base tr) 0) (\<lambda>r.
               andThen (WriteJump b (fst r) (target + of_nat (snd r)) True) (\<lambda>_.
               andThen (sys (ReadVector target patch_size)) (\<lambda>orig.
               andThen (set_self (\<lambda>p. p\<lparr>det_orig := orig\<rparr>)) (\<lambda>_. ret (snd r))))))) ?Q ?J"
    for buffer
  proof (rule hoare_gen)
    assume a: "length buffer = 45"
    have g: "hoare ?J (GetPatchSize b)
               (\<lambda>n s. ?J s \<and> (fst (GetPatchSize b (p0, w0)) = Ok n \<and> length buffer = 45)) ?J"
      by (rule hoare_weaken[OF hoare_GetPatchSize]) (simp_all add: a)
    show "hoare ?J
            (andThen (GetPatchSize b) (\<lambda>patch_size.
             andThen (relocate_loop b dec buffer target patch_size (alloc_base tr) 0) (\<lambda>r.
             andThen (WriteJump b (fst r) (target + of_nat (snd r)) True) (\<lambda>_.
             andThen (sys (ReadVector target patch_size)) (\<lambda>orig.
             andThen (set_self (\<lambda>p. p\<lparr>det_orig := orig\<rparr>)) (\<lambda>_. ret (snd r))))))) ?Q ?J"
      by (rule hoare_andThen[OF g s4])
  qed
  have s2: "hoare ?J (sys (ReadVector target kTrampSize)) (\<lambda>buffer s. ?J s \<and> length buffer = 45) ?J"
    by (rule hoare_weaken[OF hoare_sys_ReadVector[where P = ?J]])
       (auto simp: kTrampSize_def kMaxInstructionLen_def)
  have s1: "hoare ?J (set_self (\<lambda>p. p\<lparr>det_trampoline := Some tr\<rparr>)) (\<lambda>_. ?J) ?J"
    by (simp add: hoare_def set_self_def state_inv_def obj_inv_def)
  show ?thesis
    by (rule hoare_andThen[OF s1]) (rule hoare_andThen[OF s2 s3])
qed

lemma build_trampoline_inv:
  assumes dok: "decoder_ok dec" and k: "keeps T (mem w) w"
    and o: "\<forall>a\<in>set (owned p). page_of (alloc_base a) \<notin> page_of ` T"
  shows "case build_trampoline b dec (p, w) of
           (Ok n, s') \<Rightarrow>
             state_inv T (mem w) (freed w @ owned p) p w s' \<and>
             (\<exists>k. fst (GetPatchSize b (p, w)) = Ok k \<and>
                  det_orig (fst s') = map (mem (snd s')) (addr_range (det_target p) k))
         | (Throw e, s') \<Rightarrow> state_inv T (mem w) (freed w @ owned p) p w s'
         | (Abort, s') \<Rightarrow> state_inv T (mem w) (freed w @ owned p) p w s'"
proof -
  let ?J = "state_inv T (mem w) (freed w @ owned p) p w"
  let ?K = "andThen (sys (Allocator_new kTrampSize)) (\<lambda>tr.
     andThen (set_self (\<lambda>p. p\<lparr>det_trampoline := Some tr\<rparr>)) (\<lambda>_.
     andThen (sys (ReadVector (det_target p) kTrampSize)) (\<lambda>buffer.
     andThen (GetPatchSize b) (\<lambda>patch_size.
     andThen (relocate_loop b dec buffer (det_target p) patch_size (alloc_base tr) 0) (\<lambda>r.
     andThen (WriteJump b (fst r) (det_target p + of_nat (snd r)) True) (\<lambda>_.
     andThen (sys (ReadVector (det_target p) patch_size)) (\<lambda>orig.
     andThen (set_self (\<lambda>p. p\<lparr>det_orig := orig\<rparr>)) (\<lambda>_.
     ret (snd r)))))))))"
  obtain s1 where r: "reset_trampolines (p, w) = (Ok (), s1)"
    using reset_trampolines_inv(1)[OF k o] by (cases "reset_trampolines (p, w)") simp
  have J1: "?J s1" using reset_trampolines_inv(2)[OF k o] r by simp
  have eq: "build_trampoline b dec (p, w) = ?K s1"
    by (simp add: build_trampoline_def andThen_self) (simp add: andThen_def r)
  have al: "hoare ?J (sys (Allocator_new kTrampSize)) (\<lambda>tr s. ?J s \<and> fresh_for T tr) ?J"
    by (rule state_inv_sys[OF hoare_Allocator_new])
  have "hoare ?J ?K
          (\<lambda>n s. ?J s \<and> (\<exists>k. fst (GetPatchSize b (p, w)) = Ok k \<and>
                  det_orig (fst s) = map (mem (snd s)) (addr_range (det_target p) k))) ?J"
    by (rule hoare_andThen[OF al]) (rule hoare_gen, rule hoare_build_rest[OF dok])
  from hoareD[OF this J1] show ?thesis unfolding eq .
qed


section \<open>The jump writer and the virtual functions under an invariant\<close>

lemma hoare_island_gen:
  assumes "hoare I (on_unwind (release_local tr) (sys (WritePointer b (alloc_base tr) v)))
             (\<lambda>_. I) I"
    and "hoare I (keep_island tr) (\<lambda>_. I) I" and "length buf \<le> 14"
  shows "hoare I
           (andThen (on_unwind (release_local tr) (sys (WritePointer b (alloc_base tr) v)))
              (\<lambda>_. andThen (keep_island tr) (\<lambda>_. andThen (HADESMEM_DETAIL_ASSERT b c) (\<lambda>_. ret buf))))
           (\<lambda>x s. I s \<and> length x \<le> 14) I"
  apply (rule hoare_andThen[OF assms(1)])
  apply (rule hoare_andThen[OF assms(2)])
  apply (rule hoare_andThen[where R = "\<lambda>x. I"])
   apply (simp add: hoare_def HADESMEM_DETAIL_ASSERT_def)
  apply (simp add: hoare_def ret_def assms(3))
  done

lemma hoare_jump_bytes_gen:
  assumes A1: "hoare I (sys (AllocatePageNear b address)) (\<lambda>tr s. I s \<and> G tr) I"
    and A2: "\<And>tr. G tr \<Longrightarrow>
               hoare I (on_unwind (release_local tr) (sys (WritePointer b (alloc_base tr) target)))
                 (\<lambda>_. I) I"
    and A3: "\<And>tr. hoare I (keep_island tr) (\<lambda>_. I) I"
  shows "hoare I (jump_bytes b address target fb) (\<lambda>buf s. I s \<and> length buf \<le> 14) I"
proof (cases "target_arch b = X64 \<and> \<not> IsNear b address target")
  case False
  then have "jump_bytes b address target fb = ret (GenJmp32 address target)"
    by (cases "target_arch b")
       (simp_all add: jump_bytes_def gen_lengths size_defs assert_True andThen_ret_fun)
  then show ?thesis by (simp add: hoare_def ret_def gen_lengths)
next
  case True
  let ?k = "\<lambda>trampoline.
              case trampoline of
                Some tr \<Rightarrow>
                  andThen (on_unwind (release_local tr)
                             (sys (WritePointer b (alloc_base tr) target))) (\<lambda>_.
                  andThen (keep_island tr) (\<lambda>_.
                  andThen (HADESMEM_DETAIL_ASSERT b
                             (length (GenJmpTramp64 address (alloc_base tr)) = kJmpSize64 b)) (\<lambda>_.
                  ret (GenJmpTramp64 address (alloc_base tr)))))
              | None \<Rightarrow>
                  if \<not> fb then throw UnreachableTarget
                  else if ucast (drop_bit 32 target AND 0xFFFFFFFF) \<noteq> (0 :: 32 word) then
                    andThen (HADESMEM_DETAIL_ASSERT b
                               (length (GenPush64Ret target) = kPushRetSize64)) (\<lambda>_.
                    ret (GenPush64Ret target))
                  else
                    andThen (HADESMEM_DETAIL_ASSERT b
                               (length (GenPush32Ret target) = kPushRetSize32)) (\<lambda>_.
                    ret (GenPush32Ret target))"
  have eq: "jump_bytes b address target fb =
              andThen (catch_exception (sys (AllocatePageNear b address))) ?k"
    using True by (simp add: jump_bytes_def)
  have first: "hoare I (catch_exception (sys (AllocatePageNear b address)))
                 (\<lambda>r s. I s \<and> (\<forall>tr. r = Some tr \<longrightarrow> G tr)) I"
    by (rule hoare_catch) (rule hoare_weaken[OF A1], simp_all)
  have rest: "hoare (\<lambda>s. I s \<and> (\<forall>tr. r = Some tr \<longrightarrow> G tr)) (?k r)
                (\<lambda>buf s. I s \<and> length buf \<le> 14) I" for r
  proof (cases r)
    case None
    then show ?thesis
      by (simp add: hoare_def throw_def ret_def gen_lengths size_defs assert_True andThen_ret_fun)
  next
    case (Some tr)
    have "hoare (\<lambda>s. I s \<and> G tr) (?k (Some tr)) (\<lambda>buf s. I s \<and> length buf \<le> 14) I"
      by (rule hoare_gen) (simp add: hoare_island_gen A2 A3 gen_lengths)
    then show ?thesis using Some by simp
  qed
  show ?thesis unfolding eq by (rule hoare_andThen[OF first rest])
qed

lemma hoare_WriteJump_gen:
  assumes A1: "hoare I (sys (AllocatePageNear b address)) (\<lambda>tr s. I s \<and> G tr) I"
    and A2: "\<And>tr. G tr \<Longrightarrow>
               hoare I (on_unwind (release_local tr) (sys (WritePointer b (alloc_base tr) target)))
                 (\<lambda>_. I) I"
    and A3: "\<And>tr. hoare I (keep_island tr) (\<lambda>_. I) I"
    and A4: "\<And>buf. hoare I (sys (WriteVector address buf)) (\<lambda>_. I) I"
  shows "hoare I (WriteJump b address target fb) (\<lambda>n. I) I"
  unfolding WriteJump_def
proof (rule hoare_andThen[OF hoare_jump_bytes_gen[OF A1 A2 A3]])
  fix buf
  show "hoare (\<lambda>s. I s \<and> length buf \<le> 14)
          (andThen (sys (WriteVector address buf)) (\<lambda>_. ret (length buf))) (\<lambda>n. I) I"
    by (rule hoare_gen, rule hoare_andThen[OF A4]) (simp add: hoare_def ret_def)
qed

lemma hoare_sys_obj:
  "hoare (\<lambda>s. K (fst s)) (sys m) (\<lambda>_ s. K (fst s)) (\<lambda>s. K (fst s))"
  by (auto simp: hoare_def sys_def split: prod.splits result.splits)

text \<open>The jump writer assigns no field of the object but the list of islands.\<close>

lemma WriteJump_obj:
  "\<exists>ts. fst (snd (WriteJump b address target fb (p, w))) = p\<lparr>det_trampolines := ts\<rparr>"
proof -
  let ?I = "\<lambda>s :: detour_obj \<times> world. \<exists>ts. fst s = p\<lparr>det_trampolines := ts\<rparr>"
  have A1: "hoare ?I (sys (AllocatePageNear b address)) (\<lambda>tr s. ?I s \<and> True) ?I"
    using hoare_sys_obj[of "\<lambda>q. \<exists>ts. q = p\<lparr>det_trampolines := ts\<rparr>" "AllocatePageNear b address"]
    by simp
  have A2: "hoare ?I (on_unwind (release_local tr) (sys (WritePointer b (alloc_base tr) target)))
              (\<lambda>_. ?I) ?I" for tr
    by (rule hoare_on_unwind)
       (rule hoare_weaken[OF hoare_sys_obj[of "\<lambda>q. \<exists>ts. q = p\<lparr>det_trampolines := ts\<rparr>"]],
        simp_all add: release_local_def)
  have A3: "hoare ?I (keep_island tr) (\<lambda>_. ?I) ?I" for tr
    by (auto simp: hoare_def keep_island_def set_self_def)
  have A4: "hoare ?I (sys (WriteVector address buf)) (\<lambda>_. ?I) ?I" for buf
    by (rule hoare_sys_obj[of "\<lambda>q. \<exists>ts. q = p\<lparr>det_trampolines := ts\<rparr>"])
  have h: "hoare ?I (WriteJump b address target fb) (\<lambda>n. ?I) ?I"
    by (rule hoare_WriteJump_gen[where G = "\<lambda>_. True", OF A1 A2 A3 A4])
  have i: "?I (p, w)" by (rule exI[of _ "det_trampolines p"]) simp
  obtain r s' where rs: "WriteJump b address target fb (p, w) = (r, s')"
    by (cases "WriteJump b address target fb (p, w)")
  from hoareD[OF h i] show ?thesis unfolding rs by (cases r) simp_all
qed

lemma WritePatch_detour:
  "dyn_type p = PatchDetour \<Longrightarrow>
   WritePatch b (p, w) =
     andThen (WriteJump b (det_target p) (det_detour p) False) (\<lambda>_. ret ()) (p, w)"
  by (simp add: WritePatch_def andThen_self)

lemma WritePatch_detour_obj:
  assumes "dyn_type p = PatchDetour"
  shows "\<exists>ts. fst (snd (WritePatch b (p, w))) = p\<lparr>det_trampolines := ts\<rparr>"
proof -
  obtain r s' where rs: "WriteJump b (det_target p) (det_detour p) False (p, w) = (r, s')"
    by (cases "WriteJump b (det_target p) (det_detour p) False (p, w)")
  from WriteJump_obj[of b "det_target p" "det_detour p" False p w]
  obtain ts where "fst s' = p\<lparr>det_trampolines := ts\<rparr>" unfolding rs by auto
  then show ?thesis
    unfolding WritePatch_detour[OF assms]
    by (cases r) (auto simp: andThen_def rs ret_def)
qed

section \<open>Invariants that do not look at the registry\<close>

lemma hoare_AcquireSRWLock:
  assumes st: "\<And>e s. I s \<Longrightarrow> I (in_world (record_event e) s)"
    and m: "hoare I m (\<lambda>_. I) I"
  shows "hoare I (AcquireSRWLock ty m) (\<lambda>_. I) I"
  unfolding hoare_def
proof (intro allI impI)
  fix s assume "I s"
  then have i: "I (in_world (record_event (SrwAcquire ty)) s)" by (rule st)
  obtain r s' where rs: "m (in_world (record_event (SrwAcquire ty)) s) = (r, s')"
    by (cases "m (in_world (record_event (SrwAcquire ty)) s)")
  from hoareD[OF m i] have i': "I s'" unfolding rs by (cases r) simp_all
  then have "I (in_world (record_event SrwRelease) s')" by (rule st)
  then show "case AcquireSRWLock ty m s of
               (Ok x, s') \<Rightarrow> I s' | (Throw e, s') \<Rightarrow> I s' | (Abort, s') \<Rightarrow> I s'"
    using i' by (cases r) (simp_all add: AcquireSRWLock_def rs)
qed

lemma hoare_keep: "hoare I (ret x) (\<lambda>_. I) I" "hoare I (throw e) (\<lambda>_. I) I"
  "hoare I abort (\<lambda>_. I) I" "hoare I (HADESMEM_DETAIL_ASSERT b c) (\<lambda>_. I) I"
  "hoare I self (\<lambda>_. I) I" "hoare I env (\<lambda>_. I) I"
  by (simp_all add: hoare_def ret_def throw_def abort_def HADESMEM_DETAIL_ASSERT_def
      self_def env_def)

lemma hoare_virtuals:
  assumes R: "\<And>s w'. I s \<Longrightarrow> mem w' = mem (snd s) \<Longrightarrow> committed w' = committed (snd s) \<Longrightarrow>
                 freed w' = freed (snd s) \<Longrightarrow> threads w' = threads (snd s) \<Longrightarrow>
                 current_tid w' = current_tid (snd s) \<Longrightarrow> I (fst s, w')"
    and W: "\<And>a xs. hoare I (sys (WriteVector a xs)) (\<lambda>_. I) I"
  shows "hoare I (PatchInt3_WritePatch b) (\<lambda>_. I) I"
    and "hoare I PatchInt3_RemovePatch (\<lambda>_. I) I"
    and "hoare I (PatchDr_WritePatch b) (\<lambda>_. I) I"
    and "hoare I (PatchDr_RemovePatch b) (\<lambda>_. I) I"
proof -
  have ev: "I (in_world (record_event e) s)" if "I s" for e s
    using R[OF that, of "record_event e (snd s)"] by (simp add: in_world_def record_event_def)
  have reg: "I (in_world (veh_hooks_insert a x) s)" "I (in_world (veh_hooks_erase a) s)"
    "I (in_world (dr_hooks_insert t i) s)" "I (in_world (dr_hooks_erase t) s)"
    "I (in_world (SetThreadContext t c) s)" if "I s" for a x t i c s
    using R[OF that, of "veh_hooks_insert a x (snd s)"] R[OF that, of "veh_hooks_erase a (snd s)"]
      R[OF that, of "dr_hooks_insert t i (snd s)"] R[OF that, of "dr_hooks_erase t (snd s)"]
      R[OF that, of "SetThreadContext t c (snd s)"]
    by (simp_all add: in_world_def record_event_def veh_hooks_insert_def veh_hooks_erase_def
        dr_hooks_insert_def dr_hooks_erase_def SetThreadContext_def)
  have sd: "hoare I (sys_do (veh_hooks_insert a x)) (\<lambda>_. I) I"
    "hoare I (sys_do (veh_hooks_erase a)) (\<lambda>_. I) I"
    "hoare I (sys_do (dr_hooks_insert t i)) (\<lambda>_. I) I"
    "hoare I (sys_do (dr_hooks_erase t)) (\<lambda>_. I) I"
    "hoare I (sys_do (SetThreadContext t c)) (\<lambda>_. I) I" for a x t i c
    using reg by (simp_all add: hoare_def sys_do_def in_world_def)
  have uw: "hoare I (on_unwind (in_world f) m) (\<lambda>_. I) I"
    if "hoare I m (\<lambda>_. I) I" "\<And>s. I s \<Longrightarrow> I (in_world f s)" for f and m :: "(detour_obj \<times> world, unit) op"
    by (rule hoare_on_unwind) (rule hoare_weaken[OF that(1)], simp_all add: that(2))
  show "hoare I (PatchInt3_WritePatch b) (\<lambda>_. I) I"
    unfolding PatchInt3_WritePatch_def
    by (intro hoare_andThen[where R = "\<lambda>_. I"] hoare_keep hoare_AcquireSRWLock sd uw W ev reg)
  show "hoare I PatchInt3_RemovePatch (\<lambda>_. I) I"
    unfolding PatchInt3_RemovePatch_def
    by (intro hoare_andThen[where R = "\<lambda>_. I"] hoare_keep hoare_AcquireSRWLock sd uw W ev reg)
  show "hoare I (PatchDr_WritePatch b) (\<lambda>_. I) I"
    unfolding PatchDr_WritePatch_def
    by (intro hoare_andThen[where R = "\<lambda>_. I"] hoare_keep hoare_AcquireSRWLock sd uw W ev reg
        hoare_case_option)
  show "hoare I (PatchDr_RemovePatch b) (\<lambda>_. I) I"
    unfolding PatchDr_RemovePatch_def
    by (intro hoare_andThen[where R = "\<lambda>_. I"] hoare_keep hoare_AcquireSRWLock sd uw W ev reg
        hoare_if)
qed

section \<open>A thread inside the range\<close>

lemma VerifyPatchThreads_loop_busy:
  "list_ex (\<lambda>t. fst t \<noteq> cur \<and> IsExecutingInRange (snd t) target (target + of_nat n)) ts \<Longrightarrow>
   VerifyPatchThreads_loop cur ts target n = Throw BusyTarget"
  by (induction ts) auto

lemma VerifyPatchThreads_busy:
  "busy w target n \<Longrightarrow> VerifyPatchThreads target n w = (Throw BusyTarget, w)"
  by (simp add: busy_def VerifyPatchThreads_def VerifyPatchThreads_loop_busy)

lemma busy_cong:
  "threads w' = threads w \<Longrightarrow> current_tid w' = current_tid w \<Longrightarrow> busy w' t n = busy w t n"
  by (simp add: busy_def)

lemma PatchDetour_Apply_inert:
  "\<not> det_applied p \<Longrightarrow> \<not> det_detached p \<Longrightarrow>
   PatchDetour_Apply b dec (p, w) =
     (case build_trampoline b dec (p, w) of
        (Ok n, s1) \<Rightarrow>
          (case VerifyPatchThreads (det_target (fst s1)) (length (det_orig (fst s1))) (snd s1) of
             (Ok u, w1) \<Rightarrow>
               (case WritePatch b (fst s1, w1) of
                  (Ok u, s2) \<Rightarrow> (Ok (), ((fst s2)\<lparr>det_applied := True\<rparr>, snd s2))
                | (Throw e, s2) \<Rightarrow> (Throw e, s2)
                | (Abort, s2) \<Rightarrow> (Abort, s2))
           | (Throw e, w1) \<Rightarrow> (Throw e, (fst s1, w1))
           | (Abort, w1) \<Rightarrow> (Abort, (fst s1, w1)))
      | (Throw e, s1) \<Rightarrow> (Throw e, s1)
      | (Abort, s1) \<Rightarrow> (Abort, s1))"
  by (simp add: PatchDetour_Apply_def andThen_self)
     (simp add: andThen_def self_def sys_def set_self_def
        split: prod.split result.split)

lemma addr_range_mono: "k \<le> n \<Longrightarrow> set (addr_range a k) \<subseteq> set (addr_range a n)"
  by (auto simp: set_addr_range)

lemma keeps_accessible:
  "accessible w a n \<Longrightarrow> keeps (range_addrs a n) (mem w) w"
  by (simp add: accessible_def keeps_def range_addrs_def list_all_iff)

lemma owns_prologue_pages:
  "\<not> owns_prologue p \<Longrightarrow>
   \<forall>a\<in>set (owned p). page_of (alloc_base a) \<notin> page_of ` range_addrs (det_target p) kTrampSize"
  by (simp add: owns_prologue_def prologue_pages_def list_ex_iff)


section \<open>Apply, then remove\<close>

lemma decoder_ok_example: "decoder_ok example_decoder"
  unfolding decoder_ok_def
proof
  fix xs :: "byte list"
  show "insn_len (example_decoder xs) \<le> length xs"
    by (cases xs) (simp_all add: example_decoder_def)
qed

lemma PatchRaw_round_trip:
  assumes "\<not> raw_applied p" "\<not> raw_detached p" "fst (PatchRaw_Apply b (p, w)) = Ok ()"
  shows "fst (PatchRaw_Remove (snd (PatchRaw_Apply b (p, w)))) = Ok ()"
    and "mem (snd (snd (PatchRaw_Remove (snd (PatchRaw_Apply b (p, w)))))) = mem w"
proof -
  let ?t = "raw_target p" and ?n = "length (raw_data p)"
  let ?orig = "map (mem w) (addr_range ?t ?n)"
  let ?w1 = "w\<lparr>mem := store (mem w) ?t (raw_data p)\<rparr>"
  have ap_eq: "PatchRaw_Apply b (p, w) =
      (case VerifyPatchThreads_loop (current_tid w) (threads w) ?t ?n of
         Ok u \<Rightarrow>
           if accessible w ?t ?n
           then (Ok (), (p\<lparr>raw_orig := ?orig, raw_applied := True\<rparr>, ?w1))
           else (Throw MemoryIO, (p, w))
       | Throw e \<Rightarrow> (Throw e, (p, w))
       | Abort \<Rightarrow> (Abort, (p, w)))"
    using assms(1,2)
    by (simp add: PatchRaw_Apply_def andThen_self)
       (simp add: andThen_def sys_def VerifyPatchThreads_def ReadVector_def WriteVector_def
          set_self_def split: result.split)
  have v: "VerifyPatchThreads_loop (current_tid w) (threads w) ?t ?n = Ok ()"
    using assms(3) unfolding ap_eq
    by (cases "VerifyPatchThreads_loop (current_tid w) (threads w) ?t ?n") simp_all
  have a: "accessible w ?t ?n"
    using assms(3) unfolding ap_eq v by (simp split: if_splits)
  have ap: "PatchRaw_Apply b (p, w) = (Ok (), (p\<lparr>raw_orig := ?orig, raw_applied := True\<rparr>, ?w1))"
    unfolding ap_eq v using a by simp
  have a1: "accessible ?w1 ?t (length ?orig)" using a by (simp add: accessible_def)
  have rm: "PatchRaw_Remove (p\<lparr>raw_orig := ?orig, raw_applied := True\<rparr>, ?w1) =
              (Ok (), (p\<lparr>raw_orig := ?orig, raw_applied := False\<rparr>,
                       ?w1\<lparr>mem := store (mem ?w1) ?t ?orig\<rparr>))"
    using v a1
    by (simp add: PatchRaw_Remove_def andThen_self)
       (simp add: andThen_def sys_def VerifyPatchThreads_def WriteVector_def set_self_def)
  show "fst (PatchRaw_Remove (snd (PatchRaw_Apply b (p, w)))) = Ok ()"
    unfolding ap snd_conv rm by simp
  have "store (mem ?w1) ?t ?orig x = mem w x" for x
    by (simp add: store_map store_outside)
  then show "mem (snd (snd (PatchRaw_Remove (snd (PatchRaw_Apply b (p, w)))))) = mem w"
    unfolding ap snd_conv rm by auto
qed

lemma PatchDetour_Remove_mem:
  assumes "dyn_type p = PatchDetour" "fst (PatchDetour_Remove b (p, w)) = Ok ()" "det_applied p"
  shows "mem (snd (snd (PatchDetour_Remove b (p, w)))) = store (mem w) (det_target p) (det_orig p)"
proof -
  have rm_eq: "PatchDetour_Remove b (p, w) =
      (case VerifyPatchThreads_loop (current_tid w) (threads w) (det_target p)
              (length (det_orig p)) of
         Ok u \<Rightarrow>
           (case det_trampoline p of
              None \<Rightarrow> (Abort, (p, w))
            | Some tr \<Rightarrow>
                (case VerifyPatchThreads_loop (current_tid w) (threads w) (alloc_base tr)
                        (alloc_size tr) of
                   Ok u \<Rightarrow>
                     (case RemovePatch b (p, w) of
                        (Ok u, s') \<Rightarrow> (Ok (), ((fst s')\<lparr>det_applied := False\<rparr>, snd s'))
                      | (Throw e, s') \<Rightarrow> (Throw e, s')
                      | (Abort, s') \<Rightarrow> (Abort, s'))
                 | Throw e \<Rightarrow> (Throw e, (p, w))
                 | Abort \<Rightarrow> (Abort, (p, w))))
       | Throw e \<Rightarrow> (Throw e, (p, w))
       | Abort \<Rightarrow> (Abort, (p, w)))"
    using assms(3)
    by (simp add: PatchDetour_Remove_def andThen_self)
       (simp add: andThen_def sys_def VerifyPatchThreads_def set_self_def abort_def
          split: result.split option.split prod.split)
  have rp: "RemovePatch b (p, w) =
              (if accessible w (det_target p) (length (det_orig p))
               then (Ok (), (p, w\<lparr>mem := store (mem w) (det_target p) (det_orig p)\<rparr>))
               else (Throw MemoryIO, (p, w)))"
    using assms(1) by (simp add: RemovePatch_def andThen_self sys_def WriteVector_def)
  show ?thesis
    using assms(2) unfolding rm_eq rp
    by (auto split: result.splits option.splits if_splits)
qed

lemma PatchDetour_round_trip:
  assumes d: "dyn_type q = PatchDetour" and na: "\<not> det_applied q" and nd: "\<not> det_detached q"
    and dok: "decoder_ok dec" and acc: "accessible w (det_target q) kTrampSize"
    and own: "\<not> owns_prologue q"
    and ap: "fst (PatchDetour_Apply b dec (q, w)) = Ok ()"
    and rm: "fst (PatchDetour_Remove b (snd (PatchDetour_Apply b dec (q, w)))) = Ok ()"
  shows "\<exists>k. fst (GetPatchSize b (q, w)) = Ok k \<and>
             map (mem (snd (snd (PatchDetour_Remove b (snd (PatchDetour_Apply b dec (q, w)))))))
               (addr_range (det_target q) k) =
             map (mem w) (addr_range (det_target q) k)"
proof -
  let ?T = "range_addrs (det_target q) kTrampSize"
  let ?J = "state_inv ?T (mem w) (freed w @ owned q) q w"
  note bt = build_trampoline_inv[OF dok keeps_accessible[OF acc] owns_prologue_pages[OF own], of b]
  obtain r1 s1 where b1: "build_trampoline b dec (q, w) = (r1, s1)"
    by (cases "build_trampoline b dec (q, w)")
  obtain v where v: "VerifyPatchThreads (det_target (fst s1)) (length (det_orig (fst s1))) (snd s1)
                       = (v, snd s1)"
    by (simp add: VerifyPatchThreads_def)
  obtain r2 s2 where wp: "WritePatch b s1 = (r2, s2)"
    by (cases "WritePatch b s1")
  from ap obtain n where r1: "r1 = Ok n"
    by (cases r1) (simp_all add: PatchDetour_Apply_inert[OF na nd] b1)
  from ap have vv: "v = Ok ()"
    by (cases v) (simp_all add: PatchDetour_Apply_inert[OF na nd] b1 r1 v)
  from ap have r2: "r2 = Ok ()"
    by (cases r2) (simp_all add: PatchDetour_Apply_inert[OF na nd] b1 r1 v vv wp)
  have apply_eq: "PatchDetour_Apply b dec (q, w) = (Ok (), ((fst s2)\<lparr>det_applied := True\<rparr>, snd s2))"
    by (simp add: PatchDetour_Apply_inert[OF na nd] b1 r1 v vv wp r2)
  from bt obtain k where J: "?J s1" and k: "fst (GetPatchSize b (q, w)) = Ok k"
    and orig: "det_orig (fst s1) = map (mem (snd s1)) (addr_range (det_target q) k)"
    unfolding b1 r1 by auto
  from J have o: "obj_inv q (fst s1)" and wi: "world_inv ?T (mem w) (freed w @ owned q) w (snd s1)"
    by (simp_all add: state_inv_def)
  have d1: "dyn_type (fst s1) = PatchDetour" and t1: "det_target (fst s1) = det_target q"
    using o d by (simp_all add: obj_inv_def)
  from WritePatch_detour_obj[OF d1, of b "snd s1"] obtain ts where
    s2: "fst s2 = (fst s1)\<lparr>det_trampolines := ts\<rparr>" by (auto simp: wp)
  let ?p2 = "(fst s2)\<lparr>det_applied := True\<rparr>"
  have p2: "dyn_type ?p2 = PatchDetour" "det_applied ?p2" "det_target ?p2 = det_target q"
    "det_orig ?p2 = map (mem (snd s1)) (addr_range (det_target q) k)"
    using s2 d1 t1 orig by simp_all
  have rm': "fst (PatchDetour_Remove b (?p2, snd s2)) = Ok ()"
    using rm unfolding apply_eq by simp
  have fin: "mem (snd (snd (PatchDetour_Remove b (snd (PatchDetour_Apply b dec (q, w)))))) =
             store (mem (snd s2)) (det_target q) (map (mem (snd s1)) (addr_range (det_target q) k))"
    unfolding apply_eq snd_conv
    using PatchDetour_Remove_mem[OF p2(1) rm' p2(2)] p2(3,4) by simp
  have k45: "k \<le> kTrampSize"
    using GetPatchSize_le[OF k] by (simp add: kTrampSize_def kMaxInstructionLen_def)
  have "mem (snd s1) x = mem w x" if "x \<in> set (addr_range (det_target q) k)" for x
  proof -
    have "x \<in> ?T" using that addr_range_mono[OF k45] by (auto simp: range_addrs_def)
    then show ?thesis using wi by (simp add: world_inv_def keeps_def)
  qed
  then have "map (mem (snd (snd (PatchDetour_Remove b (snd (PatchDetour_Apply b dec (q, w)))))))
               (addr_range (det_target q) k) = map (mem w) (addr_range (det_target q) k)"
    unfolding fin by (simp add: store_map)
  with k show ?thesis by blast
qed

text \<open>
  Claim C1. A \<open>PatchRaw\<close> that is neither applied nor detached and whose \<open>Apply\<close>
  succeeds: \<open>Remove\<close> then succeeds, and the whole memory is what it was before \<open>Apply\<close>.
  A \<open>PatchDetour\<close> that is neither applied nor detached, with 45 readable bytes at the
  target, none of its old allocations on a page of those bytes, and a decoder that
  never reports more bytes than it was given: when \<open>Apply\<close> and then \<open>Remove\<close> succeed,
  the bytes of the target range, as many as the patch size, are what they were before
  \<open>Apply\<close>.
\<close>

theorem C1_apply_remove_round_trip:
  "(\<not> raw_applied p \<and> \<not> raw_detached p \<and> fst (PatchRaw_Apply b (p, w)) = Ok ()
    \<longrightarrow> fst (PatchRaw_Remove (snd (PatchRaw_Apply b (p, w)))) = Ok ()
        \<and> mem (snd (snd (PatchRaw_Remove (snd (PatchRaw_Apply b (p, w)))))) = mem w)
   \<and> (dyn_type q = PatchDetour \<and> \<not> det_applied q \<and> \<not> det_detached q \<and> decoder_ok dec
      \<and> accessible w (det_target q) kTrampSize \<and> \<not> owns_prologue q
      \<and> fst (PatchDetour_Apply b dec (q, w)) = Ok ()
      \<and> fst (PatchDetour_Remove b (snd (PatchDetour_Apply b dec (q, w)))) = Ok ()
    \<longrightarrow> (case fst (GetPatchSize b (q, w)) of
           Ok k \<Rightarrow>
             map (mem (snd (snd (PatchDetour_Remove b (snd (PatchDetour_Apply b dec (q, w)))))))
               (addr_range (det_target q) k) =
             map (mem w) (addr_range (det_target q) k)
         | Throw e \<Rightarrow> False
         | Abort \<Rightarrow> False))"
proof (intro conjI impI)
  assume a: "\<not> raw_applied p \<and> \<not> raw_detached p \<and> fst (PatchRaw_Apply b (p, w)) = Ok ()"
  then show "fst (PatchRaw_Remove (snd (PatchRaw_Apply b (p, w)))) = Ok ()"
    by (intro PatchRaw_round_trip(1)) simp_all
  from a show "mem (snd (snd (PatchRaw_Remove (snd (PatchRaw_Apply b (p, w)))))) = mem w"
    by (intro PatchRaw_round_trip(2)) simp_all
next
  assume a: "dyn_type q = PatchDetour \<and> \<not> det_applied q \<and> \<not> det_detached q \<and> decoder_ok dec
      \<and> accessible w (det_target q) kTrampSize \<and> \<not> owns_prologue q
      \<and> fst (PatchDetour_Apply b dec (q, w)) = Ok ()
      \<and> fst (PatchDetour_Remove b (snd (PatchDetour_Apply b dec (q, w)))) = Ok ()"
  from a have "\<exists>k. fst (GetPatchSize b (q, w)) = Ok k \<and>
             map (mem (snd (snd (PatchDetour_Remove b (snd (PatchDetour_Apply b dec (q, w)))))))
               (addr_range (det_target q) k) =
             map (mem w) (addr_range (det_target q) k)"
    by (intro PatchDetour_round_trip) simp_all
  then obtain k where k: "fst (GetPatchSize b (q, w)) = Ok k"
    and m: "map (mem (snd (snd (PatchDetour_Remove b (snd (PatchDetour_Apply b dec (q, w)))))))
               (addr_range (det_target q) k) = map (mem w) (addr_range (det_target q) k)"
    by blast
  show "case fst (GetPatchSize b (q, w)) of
           Ok k \<Rightarrow>
             map (mem (snd (snd (PatchDetour_Remove b (snd (PatchDetour_Apply b dec (q, w)))))))
               (addr_range (det_target q) k) =
             map (mem w) (addr_range (det_target q) k)
         | Throw e \<Rightarrow> False
         | Abort \<Rightarrow> False"
    unfolding k using m by simp
qed

theorem C1_witness:
  "\<not> raw_applied example_raw \<and> \<not> raw_detached example_raw
   \<and> fst (PatchRaw_Apply example_build (example_raw, example_world)) = Ok ()
   \<and> fst (PatchRaw_Remove (snd (PatchRaw_Apply example_build (example_raw, example_world)))) = Ok ()
   \<and> mem (snd (snd (PatchRaw_Remove
            (snd (PatchRaw_Apply example_build (example_raw, example_world)))))) = mem example_world
   \<and> dyn_type example_detour = PatchDetour
   \<and> \<not> det_applied example_detour \<and> \<not> det_detached example_detour
   \<and> decoder_ok example_decoder
   \<and> accessible example_world (det_target example_detour) kTrampSize
   \<and> \<not> owns_prologue example_detour
   \<and> fst (PatchDetour_Apply example_build example_decoder (example_detour, example_world)) = Ok ()
   \<and> fst (PatchDetour_Remove example_build
            (snd (PatchDetour_Apply example_build example_decoder
                    (example_detour, example_world)))) = Ok ()
   \<and> fst (GetPatchSize example_build (example_detour, example_world)) = Ok 5
   \<and> map (mem (snd (snd (PatchDetour_Remove example_build
            (snd (PatchDetour_Apply example_build example_decoder
                    (example_detour, example_world)))))))
       (addr_range (det_target example_detour) 5) =
     map (mem example_world) (addr_range (det_target example_detour) 5)"
proof -
  have r: "\<not> raw_applied example_raw" "\<not> raw_detached example_raw"
    "fst (PatchRaw_Apply example_build (example_raw, example_world)) = Ok ()"
    by code_simp+
  have d: "dyn_type example_detour = PatchDetour"
    "\<not> det_applied example_detour" "\<not> det_detached example_detour"
    "accessible example_world (det_target example_detour) kTrampSize"
    by code_simp+
  have o: "\<not> owns_prologue example_detour"
    by (simp add: owns_prologue_def owned_def example_detour_def)
  have a: "fst (PatchDetour_Apply example_build example_decoder (example_detour, example_world))
             = Ok ()"
    by code_simp
  have m: "fst (PatchDetour_Remove example_build
            (snd (PatchDetour_Apply example_build example_decoder
                    (example_detour, example_world)))) = Ok ()"
    by code_simp
  have g: "fst (GetPatchSize example_build (example_detour, example_world)) = Ok 5"
    by code_simp
  note t = C1_apply_remove_round_trip
             [of example_raw example_build example_world example_detour example_decoder]
  from t r have c1:
    "fst (PatchRaw_Remove (snd (PatchRaw_Apply example_build (example_raw, example_world)))) = Ok ()
     \<and> mem (snd (snd (PatchRaw_Remove
            (snd (PatchRaw_Apply example_build (example_raw, example_world)))))) = mem example_world"
    by blast
  from t d o a m decoder_ok_example have
    "case fst (GetPatchSize example_build (example_detour, example_world)) of
       Ok k \<Rightarrow>
         map (mem (snd (snd (PatchDetour_Remove example_build
                (snd (PatchDetour_Apply example_build example_decoder
                        (example_detour, example_world)))))))
           (addr_range (det_target example_detour) k) =
         map (mem example_world) (addr_range (det_target example_detour) k)
     | Throw e \<Rightarrow> False
     | Abort \<Rightarrow> False"
    by blast
  then have c2: "map (mem (snd (snd (PatchDetour_Remove example_build
            (snd (PatchDetour_Apply example_build example_decoder
                    (example_detour, example_world)))))))
       (addr_range (det_target example_detour) 5) =
     map (mem example_world) (addr_range (det_target example_detour) 5)"
    unfolding g by simp
  show ?thesis
    using r d o a m g c1 c2 decoder_ok_example by blast
qed


end
